theory Spec2Isabelle
  imports Main "HOL-Library.AList" "HOL-Library.Char_ord" "HOL-Library.List_Lexorder"
begin

section \<open>Data model\<close>

text \<open>
  A Go \<^verbatim>\<open>map[string]T\<close> is an association list with pairwise distinct keys:
  \<^verbatim>\<open>m[k] = v\<close> is \<^const>\<open>AList.update\<close> (replace in place, or append), \<^verbatim>\<open>m[k]\<close> is
  \<^const>\<open>map_of\<close>, and \<^verbatim>\<open>for k, v := range m\<close> visits the entries of the list. Go leaves
  the iteration order open; a statement about every association list with distinct keys
  covers every order.
\<close>

type_synonym table = "(string \<times> string) list"

type_synonym nameset = "(string \<times> bool) list"

section \<open>Comparing the current table with the quarter's table\<close>

text \<open>
  \<^verbatim>\<open>
  for fname, md5sumOld := range quarterSums {
      if md5sumCurr, present := sums[fname]; present {
          if md5sumCurr != md5sumOld { filesChangedAdded[fname] = true }
      } else {
          filesRemoved = append(filesRemoved, fname)
      }
  }
  \<close>
\<close>

fun scanQuarter :: "table \<Rightarrow> table \<Rightarrow> nameset \<times> string list \<Rightarrow> nameset \<times> string list" where
  "scanQuarter sums [] acc = acc"
| "scanQuarter sums ((fname, md5sumOld) # rest) (filesChangedAdded, filesRemoved) =
     (case map_of sums fname of
        Some md5sumCurr \<Rightarrow>
          if md5sumCurr \<noteq> md5sumOld
          then scanQuarter sums rest (AList.update fname True filesChangedAdded, filesRemoved)
          else scanQuarter sums rest (filesChangedAdded, filesRemoved)
      | None \<Rightarrow> scanQuarter sums rest (filesChangedAdded, filesRemoved @ [fname]))"

text \<open>
  \<^verbatim>\<open>
  for fname := range sums {
      if _, present := quarterSums[fname]; !present { filesChangedAdded[fname] = true }
  }
  \<close>
\<close>

fun scanCurrent :: "table \<Rightarrow> table \<Rightarrow> nameset \<Rightarrow> nameset" where
  "scanCurrent quarterSums [] filesChangedAdded = filesChangedAdded"
| "scanCurrent quarterSums ((fname, md5sumCurr) # rest) filesChangedAdded =
     (case map_of quarterSums fname of
        None \<Rightarrow> scanCurrent quarterSums rest (AList.update fname True filesChangedAdded)
      | Some md5sumOld \<Rightarrow> scanCurrent quarterSums rest filesChangedAdded)"

definition diffTables :: "table \<Rightarrow> table \<Rightarrow> nameset \<times> string list" where
  "diffTables quarterSums sums =
     (let (filesChangedAdded, filesRemoved) = scanQuarter sums quarterSums ([], [])
      in (scanCurrent quarterSums sums filesChangedAdded, filesRemoved))"

section \<open>Bucket names\<close>

text \<open>The calendar fields of \<^verbatim>\<open>time.Now()\<close> that \<^verbatim>\<open>main\<close> reads.\<close>

record date =
  Year :: int
  Month :: nat
  Day :: nat
  Weekday :: nat
  ISOWeek :: nat

text \<open>The verb \<^verbatim>\<open>%d\<close> of \<^verbatim>\<open>fmt.Sprintf\<close>: decimal digits, a minus sign when negative.\<close>

fun show_nat :: "nat \<Rightarrow> string" where
  "show_nat n =
     (if n < 10 then [''0123456789'' ! n]
      else show_nat (n div 10) @ [''0123456789'' ! (n mod 10)])"

definition show_int :: "int \<Rightarrow> string" where
  "show_int i = (if i < 0 then CHR ''-'' # show_nat (nat (- i)) else show_nat (nat i))"

text \<open>
  \<^verbatim>\<open>
  quarter := fmt.Sprintf("-Q%d%d.tar.zst", now.Year(), now.Month()/4)
  monthDelta := fmt.Sprintf("-M%d-delta.tar.zst", now.Month())
  weekDelta := fmt.Sprintf("-WN%d-delta.tar.zst", w%4)
  dayDelta := fmt.Sprintf("-WD%d-delta.tar.zst", now.Weekday())
  \<close>
\<close>

definition quarter :: "date \<Rightarrow> string" where
  "quarter now = ''-Q'' @ show_int (Year now) @ show_nat (Month now div 4) @ ''.tar.zst''"

definition monthDelta :: "date \<Rightarrow> string" where
  "monthDelta now = ''-M'' @ show_nat (Month now) @ ''-delta.tar.zst''"

definition weekDelta :: "date \<Rightarrow> string" where
  "weekDelta now = ''-WN'' @ show_nat (ISOWeek now mod 4) @ ''-delta.tar.zst''"

definition dayDelta :: "date \<Rightarrow> string" where
  "dayDelta now = ''-WD'' @ show_nat (Weekday now) @ ''-delta.tar.zst''"

section \<open>Archives and the file system\<close>

text \<open>
  What \<^verbatim>\<open>tar.Reader\<close> over \<^verbatim>\<open>zstd.NewReader\<close> hands to the program: for each member its
  header, the bytes its reader delivers (in the pieces successive \<^verbatim>\<open>Read\<close> calls return
  them) and whether that reader ends with an error instead of the end of the member.
  A well-formed member delivers exactly \<^verbatim>\<open>hdr.Size\<close> bytes and is not broken. After the
  last member \<^verbatim>\<open>Next\<close> returns \<^verbatim>\<open>io.EOF\<close> when the archive is \<open>clean\<close>, an error otherwise.
\<close>

record header =
  Name :: string
  Typeflag :: char
  Size :: nat

abbreviation TypeReg :: char where
  "TypeReg \<equiv> CHR ''0''"

record entry =
  hdr :: header
  chunks :: "string list"
  broken :: bool

record archive =
  entries :: "entry list"
  clean :: bool

definition payload :: "entry \<Rightarrow> string" where
  "payload e = concat (chunks e)"

text \<open>\<^verbatim>\<open>io.Copy(h, tarreader)\<close>: reads to the end; the bytes copied and whether an error ended it.\<close>

definition io_Copy :: "entry \<Rightarrow> string \<times> bool" where
  "io_Copy e = (payload e, broken e)"

text \<open>
  One call \<^verbatim>\<open>tarreader.Read(d)\<close> with \<^verbatim>\<open>len(d) = n\<close>: the bytes put into \<^verbatim>\<open>d\<close>, and whether
  \<^verbatim>\<open>err != nil\<close> (\<^verbatim>\<open>io.EOF\<close> once the buffer holds the whole member, or the end of the
  stream). A piece shorter than the buffer is a short read.
\<close>

definition tar_Read :: "entry \<Rightarrow> nat \<Rightarrow> string \<times> bool" where
  "tar_Read e n =
     (case chunks e of
        [] \<Rightarrow> ([], True)
      | c # cs \<Rightarrow> (take n c, length (take n c) = n))"

text \<open>
  A file is a text (fingerprint file, removal list, profile, log) or a compressed archive.
  The bytes of a compressed archive are not modelled: opened as an archive, a text has no
  readable member. The environment decides which writes fail: \<open>denied\<close> holds the paths that
  cannot be opened for writing; \<open>room\<close> gives, for a path, the number of bytes the device
  takes for a text written there before a write fails (\<open>None\<close>: no limit); \<open>tarFails\<close> gives,
  for a path, the number of calls of the tar writer (\<^verbatim>\<open>WriteHeader\<close>, \<^verbatim>\<open>Write\<close>) that succeed on
  the archive written there before one fails (\<open>None\<close>: all succeed).
\<close>

datatype content = Data string | Tar archive

record fs =
  files :: "string \<Rightarrow> content option"
  denied :: "string \<Rightarrow> bool"
  room :: "string \<Rightarrow> nat option"
  tarFails :: "string \<Rightarrow> nat option"

definition put :: "string \<Rightarrow> content \<Rightarrow> fs \<Rightarrow> fs" where
  "put p f s = s\<lparr>files := (files s)(p \<mapsto> f)\<rparr>"

definition os_Remove :: "string \<Rightarrow> fs \<Rightarrow> fs" where
  "os_Remove p s = s\<lparr>files := (files s)(p := None)\<rparr>"

fun as_archive :: "content \<Rightarrow> archive" where
  "as_archive (Tar a) = a"
| "as_archive (Data s) = \<lparr>entries = [], clean = False\<rparr>"

text \<open>
  A text written to a path opened with \<^verbatim>\<open>O_TRUNC|O_CREATE\<close>: the path cannot be opened; or the
  write fails and the file holds the bytes the device took; or the file holds the text.
\<close>

datatype wrote = NotOpened | Cut fs | Written fs


definition writeText :: "string \<Rightarrow> string \<Rightarrow> fs \<Rightarrow> wrote" where
  "writeText p t s =
     (if denied s p then NotOpened
      else
        (case room s p of
           None \<Rightarrow> Written (put p (Data t) s)
         | Some q \<Rightarrow>
             if length t \<le> q then Written (put p (Data t) s)
             else Cut (put p (Data (take q t)) s)))"

text \<open>Whether the call of the tar writer that follows \<open>k\<close> earlier calls fails.\<close>

definition writerFails :: "nat option \<Rightarrow> nat \<Rightarrow> bool" where
  "writerFails lim k = (case lim of None \<Rightarrow> False | Some l \<Rightarrow> l \<le> k)"

datatype csv_error = ErrBareQuote | ErrQuote | ErrFieldCount

text \<open>
  One constructor for each \<^verbatim>\<open>log.Fatalf\<close> of the modelled functions, and the index panic.
  \<^verbatim>\<open>zstd.NewReader\<close> and \<^verbatim>\<open>zstd.NewWriter\<close> are called without options and return no error: what
  is wrong with a stream shows when it is read.
\<close>

datatype error =
    OpenFailed string
  | TarReadFailed string
  | CopyFailed
  | SizeMismatch string string nat nat
  | CreateFailed string
  | WriteHeaderFailed
  | ReadMemberFailed string nat nat
  | InputTruncated nat nat
  | WriteDataFailed
  | RemovedListFailed string
  | ProfileWriteFailed string
  | FileDataCreateFailed string
  | FileDataWriteFailed string
  | CsvDecodeFailed string csv_error
  | IndexOutOfRange nat nat
  | ExportFailed string
  | LogWriteFailed string

section \<open>fetchFileDataFromTar\<close>

text \<open>\<^verbatim>\<open>fmt.Sprintf("%02x", v)\<close> for a byte.\<close>

definition hex02 :: "char \<Rightarrow> string" where
  "hex02 v = [''0123456789abcdef'' ! (of_char v div 16), ''0123456789abcdef'' ! (of_char v mod 16)]"

definition hexsum :: "(string \<Rightarrow> string) \<Rightarrow> string \<Rightarrow> string" where
  "hexsum md5 bytes = concat (map hex02 (md5 bytes))"

text \<open>
  The loop over the members. \<open>md5\<close> stands for \<^verbatim>\<open>md5.New()\<close>, \<^verbatim>\<open>Write\<close>, \<^verbatim>\<open>Sum(nil)\<close>: the sum of
  the bytes written.
\<close>

fun fetchLoop :: "(string \<Rightarrow> string) \<Rightarrow> string \<Rightarrow> entry list \<Rightarrow> bool \<Rightarrow> table \<Rightarrow> error + table" where
  "fetchLoop md5 fname [] cl fd = (if cl then Inr fd else Inl (TarReadFailed fname))"
| "fetchLoop md5 fname (e # es) cl fd =
     (if Typeflag (hdr e) \<noteq> TypeReg then fetchLoop md5 fname es cl fd
      else
        (case io_Copy e of
           (copied, err) \<Rightarrow>
             if err then Inl CopyFailed
             else if length copied \<noteq> Size (hdr e)
             then Inl (SizeMismatch (Name (hdr e)) fname (Size (hdr e)) (length copied))
             else fetchLoop md5 fname es cl (AList.update (Name (hdr e)) (hexsum md5 copied) fd)))"

definition fetchFileDataFromTar :: "(string \<Rightarrow> string) \<Rightarrow> string \<Rightarrow> fs \<Rightarrow> error + table" where
  "fetchFileDataFromTar md5 fname s =
     (case files s fname of
        None \<Rightarrow> Inl (OpenFailed fname)
      | Some f \<Rightarrow> fetchLoop md5 fname (entries (as_archive f)) (clean (as_archive f)) [])"

section \<open>createDeltaBackup\<close>

text \<open>
  A fatal error ends the process: \<open>Inl\<close> carries the error and the file system as it is
  left. \<open>Inr\<close> is the file system after a normal return.
\<close>

type_synonym outcome = "(error \<times> fs) + fs"

definition writeProfile :: "string \<Rightarrow> string \<Rightarrow> string \<Rightarrow> fs \<Rightarrow> outcome" where
  "writeProfile dest profileName profileData s =
     (let p = dest @ ''.'' @ profileName @ ''.profile''
      in case writeText p profileData s of
           NotOpened \<Rightarrow> Inl (ProfileWriteFailed p, s)
         | Cut s' \<Rightarrow> Inl (ProfileWriteFailed p, s')
         | Written s' \<Rightarrow> Inr s')"

text \<open>
  The copying loop; \<open>out\<close> is what the tar writer has taken so far, two calls for each
  member, and \<open>lim\<close> the number of calls the writer takes. A member whose header is written
  and whose payload is not leaves a broken member in the output.
  \<^verbatim>\<open>
  if _, present := filesChanged[hdr.Name]; present {
      if err := tarwriter.WriteHeader(hdr); err != nil { log.Fatalf(...) }
      d := make([]byte, hdr.Size)
      if n, err := tarreader.Read(d); err != nil && int64(n) != hdr.Size {
          log.Fatalf(...)
      } else if n != len(d) {
          log.Fatalf(...)
      }
      if _, err := tarwriter.Write(d); err != nil { log.Fatalf(...) }
  }
  \<close>
\<close>

fun copyLoop ::
  "string \<Rightarrow> nameset \<Rightarrow> nat option \<Rightarrow> entry list \<Rightarrow> bool \<Rightarrow> entry list \<Rightarrow>
   (error \<times> entry list) + entry list" where
  "copyLoop src filesChanged lim [] cl out = (if cl then Inr out else Inl (TarReadFailed src, out))"
| "copyLoop src filesChanged lim (e # es) cl out =
     (case map_of filesChanged (Name (hdr e)) of
        None \<Rightarrow> copyLoop src filesChanged lim es cl out
      | Some present \<Rightarrow>
          if writerFails lim (2 * length out) then Inl (WriteHeaderFailed, out)
          else
            (case tar_Read e (Size (hdr e)) of
               (d, err) \<Rightarrow>
                 if err \<and> length d \<noteq> Size (hdr e)
                 then Inl (ReadMemberFailed (Name (hdr e)) (length d) (Size (hdr e)),
                           out @ [\<lparr>hdr = hdr e, chunks = [], broken = True\<rparr>])
                 else if length d \<noteq> Size (hdr e)
                 then Inl (InputTruncated (Size (hdr e)) (length d),
                           out @ [\<lparr>hdr = hdr e, chunks = [], broken = True\<rparr>])
                 else if writerFails lim (2 * length out + 1)
                 then Inl (WriteDataFailed, out @ [\<lparr>hdr = hdr e, chunks = [], broken = True\<rparr>])
                 else copyLoop src filesChanged lim es cl
                        (out @ [\<lparr>hdr = hdr e, chunks = [d], broken = False\<rparr>])))"

definition removedList :: "string list \<Rightarrow> string" where
  "removedList filesRemoved = concat (map (\<lambda>p. p @ [CHR 0x0A]) filesRemoved)"

text \<open>
  The destination is created before the loop and closed by the deferred calls at the
  normal return only: a fatal error leaves it unclosed. The errors of
  \<^verbatim>\<open>fr.WriteString\<close> are dropped, as in the source: a removal list that does not fit is left
  cut and the call goes on.
\<close>

definition profileAndClose :: "string \<Rightarrow> entry list \<Rightarrow> string \<Rightarrow> string \<Rightarrow> fs \<Rightarrow> outcome" where
  "profileAndClose dest out profileName profileData s =
     (case writeProfile dest profileName profileData s of
        Inl x \<Rightarrow> Inl x
      | Inr s1 \<Rightarrow> Inr (put dest (Tar \<lparr>entries = out, clean = True\<rparr>) s1))"

definition createDeltaBackup ::
  "string \<Rightarrow> nameset \<Rightarrow> string list \<Rightarrow> string \<Rightarrow> string \<Rightarrow> string \<Rightarrow> fs \<Rightarrow> outcome" where
  "createDeltaBackup src filesChanged filesRemoved dest profileName profileData s =
     (if files s dest \<noteq> None then Inr s
      else
        (case files s src of
           None \<Rightarrow> Inl (OpenFailed src, s)
         | Some f \<Rightarrow>
             if denied s dest then Inl (CreateFailed dest, s)
             else
               (case copyLoop src filesChanged (tarFails s dest) (entries (as_archive f))
                       (clean (as_archive f)) [] of
                  Inl (e, out) \<Rightarrow> Inl (e, put dest (Tar \<lparr>entries = out, clean = False\<rparr>) s)
                | Inr out \<Rightarrow>
                    (let s1 = put dest (Tar \<lparr>entries = out, clean = False\<rparr>) s
                     in case writeText (dest @ ''.removed'') (removedList filesRemoved) s1 of
                          NotOpened \<Rightarrow> Inl (RemovedListFailed (dest @ ''.removed''), s1)
                        | Cut s2 \<Rightarrow> profileAndClose dest out profileName profileData s2
                        | Written s2 \<Rightarrow> profileAndClose dest out profileName profileData s2))))"

text \<open>
  For stating properties: a regular member, a member whose reader delivers exactly the
  declared size without error, and the table the loop has built after the members \<open>es\<close>
  when none of them fails.
\<close>

definition regular :: "entry \<Rightarrow> bool" where
  "regular e = (Typeflag (hdr e) = TypeReg)"

definition intact :: "entry \<Rightarrow> bool" where
  "intact e = (\<not> broken e \<and> length (payload e) = Size (hdr e))"

fun fingerprints :: "(string \<Rightarrow> string) \<Rightarrow> entry list \<Rightarrow> table \<Rightarrow> table" where
  "fingerprints md5 [] fd = fd"
| "fingerprints md5 (e # es) fd =
     (if regular e
      then fingerprints md5 es (AList.update (Name (hdr e)) (hexsum md5 (payload e)) fd)
      else fingerprints md5 es fd)"

section \<open>The fingerprint file\<close>

text \<open>
  \<open>writeFileData\<close> and \<open>loadFileData\<close> go through \<^verbatim>\<open>csv.NewWriter(f).WriteAll\<close> and
  \<^verbatim>\<open>csv.NewReader(f).ReadAll\<close> of Go's \<^verbatim>\<open>encoding/csv\<close> with the settings these constructors
  give: the comma as delimiter, no comment character, \<^verbatim>\<open>UseCRLF\<close>, \<^verbatim>\<open>LazyQuotes\<close> and
  \<^verbatim>\<open>TrimLeadingSpace\<close> off, \<^verbatim>\<open>FieldsPerRecord\<close> 0. What follows is that writer and that reader
  on the bytes of the file; the positions that the reader's errors carry are left out.
\<close>

abbreviation NL :: char where "NL \<equiv> CHR 0x0A"
abbreviation CR :: char where "CR \<equiv> CHR 0x0D"
abbreviation QUOTE :: char where "QUOTE \<equiv> CHR 0x22"
abbreviation COMMA :: char where "COMMA \<equiv> CHR '',''"

subsection \<open>\<^verbatim>\<open>csv.Writer\<close> with its default settings\<close>

text \<open>
  \<^verbatim>\<open>unicode.IsSpace\<close> of the first rune of the field, on its UTF-8 bytes: U+0009 to U+000D,
  U+0020, U+0085, U+00A0, U+1680, U+2000 to U+200A, U+2028, U+2029, U+202F, U+205F, U+3000.
\<close>

definition startsWithSpace :: "string \<Rightarrow> bool" where
  "startsWithSpace field =
     (case map of_char field :: nat list of
        [] \<Rightarrow> False
      | b0 # bs \<Rightarrow>
          (9 \<le> b0 \<and> b0 \<le> 13) \<or> b0 = 32 \<or>
          (b0 = 0xC2 \<and> (take 1 bs = [0x85] \<or> take 1 bs = [0xA0])) \<or>
          (b0 = 0xE1 \<and> take 2 bs = [0x9A, 0x80]) \<or>
          (b0 = 0xE2 \<and> (case take 2 bs of
                           [b1, b2] \<Rightarrow>
                             (b1 = 0x80 \<and> ((0x80 \<le> b2 \<and> b2 \<le> 0x8A) \<or> b2 = 0xA8 \<or> b2 = 0xA9 \<or> b2 = 0xAF)) \<or>
                             (b1 = 0x81 \<and> b2 = 0x9F)
                         | _ \<Rightarrow> False)) \<or>
          (b0 = 0xE3 \<and> take 2 bs = [0x80, 0x80]))"

definition fieldNeedsQuotes :: "string \<Rightarrow> bool" where
  "fieldNeedsQuotes field =
     (if field = [] then False
      else if field = [CHR 0x5C, CHR ''.''] then True
      else if list_ex (\<lambda>c. c = NL \<or> c = CR \<or> c = QUOTE \<or> c = COMMA) field then True
      else startsWithSpace field)"

fun quoted :: "string \<Rightarrow> string" where
  "quoted [] = []"
| "quoted (c # cs) = (if c = QUOTE then QUOTE # QUOTE # quoted cs else c # quoted cs)"

definition writeField :: "string \<Rightarrow> string" where
  "writeField field =
     (if \<not> fieldNeedsQuotes field then field else QUOTE # quoted field @ [QUOTE])"

fun writeFields :: "string list \<Rightarrow> string" where
  "writeFields [] = []"
| "writeFields [field] = writeField field"
| "writeFields (field # others) = writeField field @ COMMA # writeFields others"

definition csv_Write :: "string list \<Rightarrow> string" where
  "csv_Write record = writeFields record @ [NL]"

definition csv_WriteAll :: "string list list \<Rightarrow> string" where
  "csv_WriteAll records = concat (map csv_Write records)"

subsection \<open>\<^verbatim>\<open>csv.Reader\<close> with its default settings\<close>

text \<open>
  \<^verbatim>\<open>readLine\<close> returns the input up to and with the next newline, drops a carriage return
  at the end of a last line without newline, and turns a final \<^verbatim>\<open>\r\n\<close> into \<^verbatim>\<open>\n\<close>.
  \<open>csv_lines\<close> is the list of the lines successive calls return.
\<close>

definition stripCR :: "string \<Rightarrow> string" where
  "stripCR a = (if a \<noteq> [] \<and> last a = CR then butlast a else a)"

function csv_lines :: "string \<Rightarrow> string list" where
  "csv_lines input =
     (if input = [] then []
      else if dropWhile (\<lambda>c. c \<noteq> NL) input = []
      then [stripCR input]
      else (stripCR (takeWhile (\<lambda>c. c \<noteq> NL) input) @ [NL])
             # csv_lines (tl (dropWhile (\<lambda>c. c \<noteq> NL) input)))"
  by pat_completeness auto
termination
proof (relation "measure length")
  show "wf (measure length)" by simp
next
  fix input :: string
  assume "input \<noteq> []" and "dropWhile (\<lambda>c. c \<noteq> NL) input \<noteq> []"
  then have "length (tl (dropWhile (\<lambda>c. c \<noteq> NL) input)) < length (dropWhile (\<lambda>c. c \<noteq> NL) input)"
    by simp
  also have "\<dots> \<le> length input" by (rule length_dropWhile_le)
  finally show "(tl (dropWhile (\<lambda>c. c \<noteq> NL) input), input) \<in> measure length" by simp
qed

definition lengthNL :: "string \<Rightarrow> nat" where
  "lengthNL b = (if b \<noteq> [] \<and> last b = NL then 1 else 0)"

definition trimNL :: "string \<Rightarrow> string" where
  "trimNL field = take (length field - lengthNL field) field"

text \<open>
  The field loop of \<^verbatim>\<open>readRecord\<close>: \<open>line\<close> is what is left of the current line, \<open>rest\<close> the
  lines not read yet, \<open>flds\<close> the fields of the record so far, \<open>buf\<close> the part of a quoted
  field already seen. The result is the record and the lines left.
\<close>

function parseField :: "string \<Rightarrow> string list \<Rightarrow> string list \<Rightarrow> csv_error + (string list \<times> string list)"
  and quotedField :: "string \<Rightarrow> string list \<Rightarrow> string list \<Rightarrow> string \<Rightarrow> csv_error + (string list \<times> string list)"
where
  "parseField line rest flds =
     (if line = [] \<or> hd line \<noteq> QUOTE then
        (if dropWhile (\<lambda>c. c \<noteq> COMMA) line \<noteq> [] then
           (if QUOTE \<in> set (takeWhile (\<lambda>c. c \<noteq> COMMA) line) then Inl ErrBareQuote
            else parseField (tl (dropWhile (\<lambda>c. c \<noteq> COMMA) line)) rest
                   (flds @ [takeWhile (\<lambda>c. c \<noteq> COMMA) line]))
         else
           (if QUOTE \<in> set (trimNL line) then Inl ErrBareQuote
            else Inr (flds @ [trimNL line], rest)))
      else quotedField (tl line) rest flds [])"
| "quotedField line rest flds buf =
     (if dropWhile (\<lambda>c. c \<noteq> QUOTE) line \<noteq> [] then
        (if tl (dropWhile (\<lambda>c. c \<noteq> QUOTE) line) \<noteq> [] \<and> hd (tl (dropWhile (\<lambda>c. c \<noteq> QUOTE) line)) = QUOTE
         then quotedField (tl (tl (dropWhile (\<lambda>c. c \<noteq> QUOTE) line))) rest flds
                (buf @ takeWhile (\<lambda>c. c \<noteq> QUOTE) line @ [QUOTE])
         else if tl (dropWhile (\<lambda>c. c \<noteq> QUOTE) line) \<noteq> [] \<and> hd (tl (dropWhile (\<lambda>c. c \<noteq> QUOTE) line)) = COMMA
         then parseField (tl (tl (dropWhile (\<lambda>c. c \<noteq> QUOTE) line))) rest
                (flds @ [buf @ takeWhile (\<lambda>c. c \<noteq> QUOTE) line])
         else if lengthNL (tl (dropWhile (\<lambda>c. c \<noteq> QUOTE) line)) = length (tl (dropWhile (\<lambda>c. c \<noteq> QUOTE) line))
         then Inr (flds @ [buf @ takeWhile (\<lambda>c. c \<noteq> QUOTE) line], rest)
         else Inl ErrQuote)
      else if line \<noteq> [] then
        (case rest of
           [] \<Rightarrow> quotedField [] [] flds (buf @ line)
         | l # ls \<Rightarrow> quotedField l ls flds (buf @ line))
      else Inl ErrQuote)"
  by pat_completeness auto
termination
proof (relation "measures
    [\<lambda>x. case x of Inl (line, rest, flds) \<Rightarrow> length rest | Inr (line, rest, flds, buf) \<Rightarrow> length rest,
     \<lambda>x. case x of Inl (line, rest, flds) \<Rightarrow> length line | Inr (line, rest, flds, buf) \<Rightarrow> length line]",
    goal_cases)
  case 1
  show ?case by simp
next
  case (2 line rest flds)
  have "length (tl (dropWhile (\<lambda>c. c \<noteq> COMMA) line)) < length (dropWhile (\<lambda>c. c \<noteq> COMMA) line)"
    using 2 by simp
  also have "\<dots> \<le> length line" by (rule length_dropWhile_le)
  finally show ?case by simp
next
  case (3 line rest flds)
  then show ?case by (cases line) auto
next
  case (4 line rest flds buf)
  have "length (tl (tl (dropWhile (\<lambda>c. c \<noteq> QUOTE) line))) < length (dropWhile (\<lambda>c. c \<noteq> QUOTE) line)"
    using 4 by (cases "dropWhile (\<lambda>c. c \<noteq> QUOTE) line") auto
  also have "\<dots> \<le> length line" by (rule length_dropWhile_le)
  finally show ?case by simp
next
  case (5 line rest flds buf)
  have "length (tl (tl (dropWhile (\<lambda>c. c \<noteq> QUOTE) line))) < length (dropWhile (\<lambda>c. c \<noteq> QUOTE) line)"
    using 5 by (cases "dropWhile (\<lambda>c. c \<noteq> QUOTE) line") auto
  also have "\<dots> \<le> length line" by (rule length_dropWhile_le)
  finally show ?case by simp
next
  case (6 line rest flds buf)
  then show ?case by (cases line) auto
next
  case (7 line rest flds buf l ls)
  then show ?case by simp
qed

declare parseField.simps [simp del] quotedField.simps [simp del]

lemma parse_result:
  "parseField line rest flds = Inr (r, rest') \<Longrightarrow>
     length rest' \<le> length rest \<and> length flds < length r"
  "quotedField line rest flds buf = Inr (r, rest') \<Longrightarrow>
     length rest' \<le> length rest \<and> length flds < length r"
proof (induction line rest flds and line rest flds buf rule: parseField_quotedField.induct)
  case (1 line rest flds)
  note eq = "1.prems" [unfolded parseField.simps [of line rest flds]]
  show ?case
  proof (cases "line = [] \<or> hd line \<noteq> QUOTE")
    case plain: True
    show ?thesis
    proof (cases "dropWhile (\<lambda>c. c \<noteq> COMMA) line \<noteq> []")
      case comma: True
      show ?thesis
      proof (cases "QUOTE \<in> set (takeWhile (\<lambda>c. c \<noteq> COMMA) line)")
        case True
        with eq plain comma show ?thesis by (simp split: if_splits)
      next
        case False
        with eq plain comma
        have "parseField (tl (dropWhile (\<lambda>c. c \<noteq> COMMA) line)) rest
                (flds @ [takeWhile (\<lambda>c. c \<noteq> COMMA) line]) = Inr (r, rest')"
          by (simp split: if_splits)
        with "1.IH"(1) [OF plain comma False] show ?thesis by simp
      qed
    next
      case False
      with eq plain show ?thesis by (auto split: if_splits)
    qed
  next
    case False
    with eq have "quotedField (tl line) rest flds [] = Inr (r, rest')" by (simp split: if_splits)
    with "1.IH"(2) [OF False] show ?thesis by simp
  qed
next
  case (2 line rest flds buf)
  note eq = "2.prems" [unfolded quotedField.simps [of line rest flds buf]]
  let ?after = "tl (dropWhile (\<lambda>c. c \<noteq> QUOTE) line)"
  show ?case
  proof (cases "dropWhile (\<lambda>c. c \<noteq> QUOTE) line \<noteq> []")
    case found: True
    show ?thesis
    proof (cases "?after \<noteq> [] \<and> hd ?after = QUOTE")
      case True
      with eq found
      have "quotedField (tl ?after) rest flds (buf @ takeWhile (\<lambda>c. c \<noteq> QUOTE) line @ [QUOTE])
              = Inr (r, rest')"
        by (simp split: if_splits)
      with "2.IH"(1) [OF found True] show ?thesis by simp
    next
      case notq: False
      show ?thesis
      proof (cases "?after \<noteq> [] \<and> hd ?after = COMMA")
        case True
        with eq found notq
        have "parseField (tl ?after) rest (flds @ [buf @ takeWhile (\<lambda>c. c \<noteq> QUOTE) line])
                = Inr (r, rest')"
          by (simp split: if_splits)
        with "2.IH"(2) [OF found notq True] show ?thesis by simp
      next
        case False
        with eq found notq show ?thesis by (auto split: if_splits)
      qed
    qed
  next
    case nf: False
    show ?thesis
    proof (cases "line \<noteq> []")
      case ne: True
      show ?thesis
      proof (cases rest)
        case Nil
        with eq nf ne have "quotedField [] [] flds (buf @ line) = Inr (r, rest')" by simp
        with "2.IH"(3) [OF nf ne Nil] Nil show ?thesis by simp
      next
        case (Cons l ls)
        with eq nf ne have "quotedField l ls flds (buf @ line) = Inr (r, rest')" by simp
        with "2.IH"(4) [OF nf ne Cons] Cons show ?thesis by simp
      qed
    next
      case False
      with eq nf show ?thesis by simp
    qed
  qed
qed

lemma parse_rest_length:
  "parseField line rest flds = Inr (r, rest') \<Longrightarrow> length rest' \<le> length rest"
  by (simp add: parse_result(1))

text \<open>
  \<^verbatim>\<open>ReadAll\<close>: records until the end of the input. Lines that are empty are skipped between
  records. \<^verbatim>\<open>FieldsPerRecord\<close> is 0 at first, which makes the first record set the number
  of fields every later record must have; a negative number would switch the check off.
\<close>

function readRecords :: "string list \<Rightarrow> int \<Rightarrow> string list list \<Rightarrow> csv_error + string list list" where
  "readRecords [] fieldsPerRecord records = Inr records"
| "readRecords (line # rest) fieldsPerRecord records =
     (if length line = lengthNL line then readRecords rest fieldsPerRecord records
      else
        (case parseField line rest [] of
           Inl e \<Rightarrow> Inl e
         | Inr (r, rest') \<Rightarrow>
             if fieldsPerRecord > 0 \<and> int (length r) \<noteq> fieldsPerRecord then Inl ErrFieldCount
             else readRecords rest' (if fieldsPerRecord = 0 then int (length r) else fieldsPerRecord)
                    (records @ [r])))"
  by pat_completeness auto
termination
  by (relation "measure (\<lambda>(ls, n, rs). length ls)") (auto dest: parse_rest_length)

declare readRecords.simps [simp del] csv_lines.simps [simp del]

definition csv_ReadAll :: "string \<Rightarrow> csv_error + string list list" where
  "csv_ReadAll input = readRecords (csv_lines input) 0 []"

text \<open>
  For stating properties: the records as the reader separates them, with the check of the
  number of fields switched off.
\<close>

definition rawRecords :: "string list \<Rightarrow> csv_error + string list list" where
  "rawRecords ls = readRecords ls (- 1) []"

subsection \<open>writeFileData and loadFileData\<close>

text \<open>\<^verbatim>\<open>fd[k]\<close> read from a map: the zero value when the key is missing.\<close>

definition lookupStr :: "table \<Rightarrow> string \<Rightarrow> string" where
  "lookupStr fd k = (case map_of fd k of None \<Rightarrow> [] | Some v \<Rightarrow> v)"

definition fileDataRecords :: "table \<Rightarrow> string list list" where
  "fileDataRecords fd = map (\<lambda>n. [n, lookupStr fd n]) (sort (map fst fd))"

text \<open>
  \<^verbatim>\<open>
  f, err := os.OpenFile(out, os.O_TRUNC|os.O_CREATE|os.O_WRONLY, 0644)
  if err != nil { log.Fatalf("Failed to create filedata file ...") }
  defer f.Close()
  csvWriter := csv.NewWriter(f)
  if err := csvWriter.WriteAll(fl); err != nil { log.Fatalf("Fail to write filedata to csv ...") }
  \<close>
\<close>

definition writeFileData :: "string \<Rightarrow> table \<Rightarrow> fs \<Rightarrow> outcome" where
  "writeFileData out fd s =
     (case writeText out (csv_WriteAll (fileDataRecords fd)) s of
        NotOpened \<Rightarrow> Inl (FileDataCreateFailed out, s)
      | Cut s' \<Rightarrow> Inl (FileDataWriteFailed out, s')
      | Written s' \<Rightarrow> Inr s')"

text \<open>
  \<^verbatim>\<open>
  for _, l := range c { checksums[l[0]] = l[1] }
  \<close>
  An index beyond the record panics.
\<close>

fun checksumsOf :: "string list list \<Rightarrow> table \<Rightarrow> error + table" where
  "checksumsOf [] checksums = Inr checksums"
| "checksumsOf (l # c) checksums =
     (case l of
        [] \<Rightarrow> Inl (IndexOutOfRange 0 0)
      | [k] \<Rightarrow> Inl (IndexOutOfRange 1 1)
      | k # v # others \<Rightarrow> checksumsOf c (AList.update k v checksums))"

text \<open>The text of a file; a compressed archive read as text is not modelled and has none.\<close>

fun text_of :: "content \<Rightarrow> string option" where
  "text_of (Data t) = Some t"
| "text_of (Tar a) = None"

definition loadFileData :: "string \<Rightarrow> fs \<Rightarrow> error + table" where
  "loadFileData fname s =
     (case files s fname of
        None \<Rightarrow> Inl (OpenFailed fname)
      | Some f \<Rightarrow>
          (case text_of f of
             None \<Rightarrow> Inl (CsvDecodeFailed fname ErrQuote)
           | Some t \<Rightarrow>
               (case csv_ReadAll t of
                  Inl e \<Rightarrow> Inl (CsvDecodeFailed fname e)
                | Inr c \<Rightarrow> checksumsOf c [])))"




section \<open>The run for one container\<close>

datatype runningState = stateRunning | stateStopped

record containerState =
  name :: string
  host :: string
  state :: runningState
  profile :: string
  profileName :: string

text \<open>
  \<^verbatim>\<open>
  if now.Day() == 1 { os.Remove(lxdBackupPrefix + c.name + monthDelta) }
  if now.Weekday() == 1 { os.Remove(lxdBackupPrefix + c.name + weekDelta) }
  os.Remove(lxdBackupPrefix + c.name + dayDelta)
  \<close>
\<close>

definition evict :: "date \<Rightarrow> string \<Rightarrow> fs \<Rightarrow> fs" where
  "evict now base s =
     (let s1 = (if Day now = 1 then os_Remove (base @ monthDelta now) s else s);
          s2 = (if Weekday now = 1 then os_Remove (base @ weekDelta now) s1 else s1)
      in os_Remove (base @ dayDelta now) s2)"

definition buildDeltas ::
  "date \<Rightarrow> string \<Rightarrow> string \<Rightarrow> nameset \<Rightarrow> string list \<Rightarrow> containerState \<Rightarrow> fs \<Rightarrow> outcome" where
  "buildDeltas now base exportName filesChangedAdded filesRemoved c s =
     (case createDeltaBackup exportName filesChangedAdded filesRemoved (base @ monthDelta now)
             (profileName c) (profile c) s of
        Inl x \<Rightarrow> Inl x
      | Inr s1 \<Rightarrow>
          (case createDeltaBackup exportName filesChangedAdded filesRemoved (base @ weekDelta now)
                  (profileName c) (profile c) s1 of
             Inl x \<Rightarrow> Inl x
           | Inr s2 \<Rightarrow>
               createDeltaBackup exportName filesChangedAdded filesRemoved (base @ dayDelta now)
                 (profileName c) (profile c) s2))"

text \<open>The two lines of the log: \<^verbatim>\<open>"%s: No changes\n"\<close> and the status of a run with changes.\<close>

definition noChangesLine :: "string \<Rightarrow> string" where
  "noChangesLine nowString = nowString @ '': No changes'' @ [CHR 0x0A]"

definition statusLine :: "string \<Rightarrow> nameset \<Rightarrow> string list \<Rightarrow> string" where
  "statusLine nowString filesChangedAdded filesRemoved =
     nowString @ '': '' @ show_nat (length filesChangedAdded) @ '' files changed/added, ''
       @ show_nat (length filesRemoved) @ '' removed.'' @ [CHR 0x0A]"

text \<open>
  The three \<^verbatim>\<open>createDeltaBackup\<close> calls, the status log and \<^verbatim>\<open>os.Remove(exportName)\<close>.
\<close>

definition finishDelta ::
  "date \<Rightarrow> string \<Rightarrow> string \<Rightarrow> string \<Rightarrow> nameset \<Rightarrow> string list \<Rightarrow> containerState \<Rightarrow> fs \<Rightarrow> outcome" where
  "finishDelta now nowString base exportName filesChangedAdded filesRemoved c s =
     (case buildDeltas now base exportName filesChangedAdded filesRemoved c s of
        Inl x \<Rightarrow> Inl x
      | Inr s1 \<Rightarrow>
          (case writeText (base @ ''.log'')
                  (statusLine nowString filesChangedAdded filesRemoved) s1 of
             NotOpened \<Rightarrow> Inl (LogWriteFailed (base @ ''.log''), s1)
           | Cut s2 \<Rightarrow> Inl (LogWriteFailed (base @ ''.log''), s2)
           | Written s2 \<Rightarrow> Inr (os_Remove exportName s2)))"

text \<open>
  The part of the loop body that follows \<^verbatim>\<open>sums := fetchFileDataFromTar(exportName)\<close> when
  a quarter backup exists: from \<^verbatim>\<open>loadFileData\<close> to \<^verbatim>\<open>os.Remove(exportName)\<close>. With no
  change the body ends at \<^verbatim>\<open>continue\<close>, before the removals; the error of that log write
  is dropped, as in the source.
\<close>

definition deltaRun ::
  "date \<Rightarrow> string \<Rightarrow> string \<Rightarrow> containerState \<Rightarrow> string \<Rightarrow> table \<Rightarrow> fs \<Rightarrow> outcome" where
  "deltaRun now nowString lxdBackupPrefix c exportName sums s =
     (let base = lxdBackupPrefix @ name c
      in case loadFileData (base @ quarter now @ ''.md5sum'') s of
           Inl e \<Rightarrow> Inl (e, s)
         | Inr quarterSums \<Rightarrow>
             (case diffTables quarterSums sums of
                (filesChangedAdded, filesRemoved) \<Rightarrow>
                  if filesChangedAdded = [] \<and> filesRemoved = []
                  then Inr (case writeText (base @ ''.log'') (noChangesLine nowString) s of
                              NotOpened \<Rightarrow> s
                            | Cut s1 \<Rightarrow> s1
                            | Written s1 \<Rightarrow> s1)
                  else finishDelta now nowString base exportName filesChangedAdded filesRemoved c
                         (evict now base s)))"

text \<open>
  The loop body. \<open>exported\<close> is what \<^verbatim>\<open>lxc export\<close> writes (\<open>None\<close> when it fails), \<open>tmpName\<close>
  the name made from \<^verbatim>\<open>time.Now().UnixNano()\<close>. Stopping and starting the container do not
  touch the files.
\<close>

definition backupContainer ::
  "(string \<Rightarrow> string) \<Rightarrow> date \<Rightarrow> string \<Rightarrow> string \<Rightarrow> string \<Rightarrow> archive option \<Rightarrow>
   containerState \<Rightarrow> fs \<Rightarrow> outcome" where
  "backupContainer md5 now nowString lxdBackupPrefix tmpName exported c s =
     (let qBackup = lxdBackupPrefix @ name c @ quarter now;
          doDelta = (files s qBackup \<noteq> None);
          exportName = (if doDelta then tmpName else qBackup)
      in case exported of
           None \<Rightarrow> Inl (ExportFailed exportName, s)
         | Some a \<Rightarrow>
             (let s1 = put exportName (Tar a) s
              in case fetchFileDataFromTar md5 exportName s1 of
                   Inl e \<Rightarrow> Inl (e, s1)
                 | Inr sums \<Rightarrow>
                     if \<not> doDelta
                     then (case writeFileData (exportName @ ''.md5sum'') sums s1 of
                             Inl x \<Rightarrow> Inl x
                           | Inr s2 \<Rightarrow> writeProfile exportName (profileName c) (profile c) s2)
                     else deltaRun now nowString lxdBackupPrefix c exportName sums s1))"

section \<open>Example inputs\<close>

text \<open>
  Monday 1 May 2023 and the day after, both in ISO week 18 and in the quarter that the
  program counts from April; Saturday 1 April 2023, the first day of that quarter.
\<close>

definition monday1May :: date where
  "monday1May = \<lparr>Year = 2023, Month = 5, Day = 1, Weekday = 1, ISOWeek = 18\<rparr>"

definition tuesday2May :: date where
  "tuesday2May = \<lparr>Year = 2023, Month = 5, Day = 2, Weekday = 2, ISOWeek = 18\<rparr>"

definition saturday1April :: date where
  "saturday1April = \<lparr>Year = 2023, Month = 4, Day = 1, Weekday = 6, ISOWeek = 13\<rparr>"

definition web :: containerState where
  "web = \<lparr>name = ''web'', host = ''h'', state = stateStopped, profile = ''cfg'',
         profileName = ''default''\<rparr>"

definition oldDelta :: archive where
  "oldDelta = \<lparr>entries = [], clean = True\<rparr>"

text \<open>A quarter fingerprint file with the one record \<open>a,h1\<close>, and an older month delta.\<close>

definition fsA :: fs where
  "fsA = \<lparr>files = [''lxd-backup-web-Q20222.tar.zst.md5sum'' \<mapsto> Data (''a,h1'' @ [CHR 0x0A]),
                   ''lxd-backup-web-M8-delta.tar.zst'' \<mapsto> Tar oldDelta],
         denied = (\<lambda>p. False), room = (\<lambda>p. None), tarFails = (\<lambda>p. None)\<rparr>"

text \<open>
  A stand-in for the MD5 sum in examples (the bytes themselves), the regular member \<open>f\<close> with
  given bytes, a directory, a member cut off after 2 of its 5 bytes, and a member of 4
  bytes that its reader delivers in two pieces of 2.
\<close>

definition toySum :: "string \<Rightarrow> string" where
  "toySum bytes = bytes"

definition memberF :: "string \<Rightarrow> entry" where
  "memberF bytes =
     \<lparr>hdr = \<lparr>Name = ''f'', Typeflag = TypeReg, Size = length bytes\<rparr>, chunks = [bytes], broken = False\<rparr>"

definition dirD :: entry where
  "dirD = \<lparr>hdr = \<lparr>Name = ''d'', Typeflag = CHR ''5'', Size = 0\<rparr>, chunks = [], broken = False\<rparr>"

definition cutF :: entry where
  "cutF = \<lparr>hdr = \<lparr>Name = ''f'', Typeflag = TypeReg, Size = 5\<rparr>, chunks = [''ab''], broken = True\<rparr>"

definition piecesG :: entry where
  "piecesG =
     \<lparr>hdr = \<lparr>Name = ''g'', Typeflag = TypeReg, Size = 4\<rparr>, chunks = [''ab'', ''cd''], broken = False\<rparr>"

text \<open>
  Archives: \<open>f\<close> twice around a directory; the cut member alone; the member in two pieces
  alone, in a well-formed archive; an archive that cannot be read further after its first
  member; and the exports of a container whose only file \<open>f\<close> holds \<open>x\<close>, later \<open>y\<close>.
\<close>

definition twiceArchive :: archive where
  "twiceArchive = \<lparr>entries = [memberF ''x'', dirD, memberF ''y''], clean = True\<rparr>"

definition cutArchive :: archive where
  "cutArchive = \<lparr>entries = [cutF], clean = False\<rparr>"

definition piecesArchive :: archive where
  "piecesArchive = \<lparr>entries = [piecesG], clean = True\<rparr>"

definition tornArchive :: archive where
  "tornArchive = \<lparr>entries = [memberF ''x''], clean = False\<rparr>"

definition exportX :: archive where
  "exportX = \<lparr>entries = [memberF ''x''], clean = True\<rparr>"

definition exportY :: archive where
  "exportY = \<lparr>entries = [memberF ''y''], clean = True\<rparr>"

definition fsC :: fs where
  "fsC = \<lparr>files = [''twice.tar.zst'' \<mapsto> Tar twiceArchive,
                   ''cut.tar.zst'' \<mapsto> Tar cutArchive,
                   ''pieces.tar.zst'' \<mapsto> Tar piecesArchive,
                   ''torn.tar.zst'' \<mapsto> Tar tornArchive,
                   ''dup.md5sum'' \<mapsto> Data (''a,h1'' @ [CHR 0x0A] @ ''a,h2'' @ [CHR 0x0A]),
                   ''three.md5sum'' \<mapsto> Data (''a,b,c'' @ [CHR 0x0A])],
         denied = (\<lambda>p. False), room = (\<lambda>p. None), tarFails = (\<lambda>p. None)\<rparr>"

text \<open>
  The backup directory on the morning of Monday 1 May 2023: the quarter backup of April
  with its fingerprint file (\<open>f\<close> holds \<open>x\<close>, digest \<open>78\<close>), and the deltas left in the month
  bucket 5, the week bucket 2 and the day bucket 1 by earlier periods.
\<close>

definition fsMay :: fs where
  "fsMay = \<lparr>files = [''lxd-backup-web-Q20231.tar.zst'' \<mapsto> Tar exportX,
                     ''lxd-backup-web-Q20231.tar.zst.md5sum'' \<mapsto> Data (''f,78'' @ [CHR 0x0A]),
                     ''lxd-backup-web-M5-delta.tar.zst'' \<mapsto> Tar oldDelta,
                     ''lxd-backup-web-WN2-delta.tar.zst'' \<mapsto> Tar oldDelta,
                     ''lxd-backup-web-WD1-delta.tar.zst'' \<mapsto> Tar oldDelta],
           denied = (\<lambda>p. False), room = (\<lambda>p. None), tarFails = (\<lambda>p. None)\<rparr>"

text \<open>
  An empty backup directory on a device that takes 3 bytes of the fingerprint file of the
  quarter.
\<close>

definition fsFull :: fs where
  "fsFull = \<lparr>files = (\<lambda>p. None), denied = (\<lambda>p. False),
              room = (\<lambda>p. if p = ''lxd-backup-web-Q20231.tar.zst.md5sum'' then Some 3 else None),
              tarFails = (\<lambda>p. None)\<rparr>"

text \<open>
  Two runs over \<open>fsMay\<close>. On Monday the container is as in the quarter backup; on Tuesday
  its file \<open>f\<close> holds \<open>y\<close>.
\<close>

definition mondayRun :: outcome where
  "mondayRun =
     backupContainer toySum monday1May ''2023-05-01'' ''lxd-backup-''
       ''lxd-temporary-backup-1.tar.zstd'' (Some exportX) web fsMay"

definition tuesdayRun :: outcome where
  "tuesdayRun =
     backupContainer toySum tuesday2May ''2023-05-02'' ''lxd-backup-''
       ''lxd-temporary-backup-2.tar.zstd'' (Some exportY) web (projr mondayRun)"

text \<open>
  The first run of the quarter on the device of \<open>fsFull\<close>, and the run of the day after on
  what it leaves, with the container unchanged.
\<close>

definition aprilRun :: outcome where
  "aprilRun =
     backupContainer toySum saturday1April ''2023-04-01'' ''lxd-backup-''
       ''lxd-temporary-backup-0.tar.zstd'' (Some exportX) web fsFull"

definition sunday2April :: date where
  "sunday2April = \<lparr>Year = 2023, Month = 4, Day = 2, Weekday = 0, ISOWeek = 13\<rparr>"

definition sundayRun :: outcome where
  "sundayRun =
     backupContainer toySum sunday2April ''2023-04-02'' ''lxd-backup-''
       ''lxd-temporary-backup-3.tar.zstd'' (Some exportX) web (snd (projl aprilRun))"

section \<open>Properties of the writes of texts\<close>

lemma writeText_other:
  assumes "writeText p t s = Written s' \<or> writeText p t s = Cut s'" and "x \<noteq> p"
  shows "files s' x = files s x"
  using assms by (auto simp: writeText_def put_def split: if_splits option.splits)


lemma writeText_Cut:
  "writeText p t s = Cut s' \<longleftrightarrow>
     \<not> denied s p \<and> (\<exists>q. room s p = Some q \<and> q < length t \<and> s' = put p (Data (take q t)) s)"
  by (auto simp: writeText_def split: option.splits)

lemma writeText_NotOpened:
  "writeText p t s = NotOpened \<longleftrightarrow> denied s p"
  by (auto simp: writeText_def split: option.splits)

section \<open>Properties of the comparison\<close>

lemma scanQuarter_removed:
  "set (snd (scanQuarter sums qs (ch, rm))) = set rm \<union> {p \<in> fst ` set qs. map_of sums p = None}"
proof (induction qs arbitrary: ch rm)
  case Nil
  then show ?case by simp
next
  case (Cons a qs)
  obtain p old where a: "a = (p, old)" by (cases a)
  show ?case
  proof (cases "map_of sums p")
    case None
    then show ?thesis using Cons.IH [of ch "rm @ [p]"] a by auto
  next
    case (Some cur)
    then show ?thesis
      using Cons.IH [of ch rm] Cons.IH [of "AList.update p True ch" rm] a by auto
  qed
qed

lemma scanQuarter_changed:
  "fst ` set (fst (scanQuarter sums qs (ch, rm))) =
     fst ` set ch \<union> {p. \<exists>old cur. (p, old) \<in> set qs \<and> map_of sums p = Some cur \<and> cur \<noteq> old}"
proof (induction qs arbitrary: ch rm)
  case Nil
  then show ?case by simp
next
  case (Cons a qs)
  obtain p old where a: "a = (p, old)" by (cases a)
  show ?case
  proof (cases "map_of sums p")
    case None
    then show ?thesis using Cons.IH a by auto
  next
    case (Some cur)
    show ?thesis
    proof (cases "cur = old")
      case True
      then show ?thesis using Cons.IH Some a by auto
    next
      case False
      have "fst ` set (AList.update p True ch) = insert p (fst ` set ch)"
        using dom_update [of p True ch] by (simp add: dom_map_of_conv_image_fst)
      then show ?thesis using Cons.IH [of "AList.update p True ch" rm] Some a False by auto
    qed
  qed
qed

lemma scanCurrent_changed:
  "fst ` set (scanCurrent qs cs ch) =
     fst ` set ch \<union> {p \<in> fst ` set cs. map_of qs p = None}"
proof (induction cs arbitrary: ch)
  case Nil
  then show ?case by simp
next
  case (Cons a cs)
  obtain p cur where a: "a = (p, cur)" by (cases a)
  have upd: "fst ` set (AList.update p True ch) = insert p (fst ` set ch)"
    using dom_update [of p True ch] by (simp add: dom_map_of_conv_image_fst)
  show ?case
  proof (cases "map_of qs p")
    case None
    then show ?thesis using Cons.IH [of "AList.update p True ch"] a upd by auto
  next
    case (Some old)
    then show ?thesis using Cons.IH [of ch] a by auto
  qed
qed

text \<open>
  C1. With the quarter's table \<open>quarterSums\<close> (the baseline) and the current table \<open>sums\<close>:
  the changed-or-added names are exactly the paths of \<open>sums\<close> whose digest is missing from
  \<open>quarterSums\<close> or differs from the one there; the removed names are exactly the paths of
  \<open>quarterSums\<close> missing from \<open>sums\<close>; the two sets are disjoint; and a path with the same
  digest in both tables is in neither.
\<close>

theorem diff_classifies:
  assumes "distinct (map fst quarterSums)"
  shows "dom (map_of (fst (diffTables quarterSums sums))) =
           {p. \<exists>cur. map_of sums p = Some cur \<and> map_of quarterSums p \<noteq> Some cur}
       \<and> set (snd (diffTables quarterSums sums)) = dom (map_of quarterSums) - dom (map_of sums)
       \<and> dom (map_of (fst (diffTables quarterSums sums))) \<inter> set (snd (diffTables quarterSums sums)) = {}
       \<and> (\<forall>p d. map_of quarterSums p = Some d \<and> map_of sums p = Some d \<longrightarrow>
             p \<notin> dom (map_of (fst (diffTables quarterSums sums))) \<and>
             p \<notin> set (snd (diffTables quarterSums sums)))"
proof -
  obtain ch rm where sq: "scanQuarter sums quarterSums ([], []) = (ch, rm)"
    by (cases "scanQuarter sums quarterSums ([], [])")
  have d: "diffTables quarterSums sums = (scanCurrent quarterSums sums ch, rm)"
    by (simp add: diffTables_def sq)
  have mem: "\<And>p old. (p, old) \<in> set quarterSums \<longleftrightarrow> map_of quarterSums p = Some old"
    using assms by simp
  have rm: "set rm = {p \<in> fst ` set quarterSums. map_of sums p = None}"
    using scanQuarter_removed [of sums quarterSums "[]" "[]"] by (simp add: sq)
  have ch: "fst ` set ch =
      {p. \<exists>old cur. map_of quarterSums p = Some old \<and> map_of sums p = Some cur \<and> cur \<noteq> old}"
    using scanQuarter_changed [of sums quarterSums "[]" "[]"] by (simp add: sq mem)
  have ch2: "fst ` set (scanCurrent quarterSums sums ch) =
      fst ` set ch \<union> {p \<in> fst ` set sums. map_of quarterSums p = None}"
    by (rule scanCurrent_changed)
  have in_sums: "\<And>p. p \<in> fst ` set sums \<longleftrightarrow> (\<exists>cur. map_of sums p = Some cur)"
    by (metis map_of_eq_None_iff not_Some_eq)
  have in_q: "\<And>p. p \<in> fst ` set quarterSums \<longleftrightarrow> (\<exists>cur. map_of quarterSums p = Some cur)"
    by (metis map_of_eq_None_iff not_Some_eq)
  have A: "dom (map_of (scanCurrent quarterSums sums ch)) =
           {p. \<exists>cur. map_of sums p = Some cur \<and> map_of quarterSums p \<noteq> Some cur}"
    unfolding dom_map_of_conv_image_fst ch2 ch in_sums by auto (metis not_Some_eq)
  have B: "set rm = dom (map_of quarterSums) - dom (map_of sums)"
    unfolding rm in_q by auto
  show ?thesis unfolding d fst_conv snd_conv A B by auto
qed

text \<open>
  The scenario of the specification: baseline \<open>{a: h1, b: h2}\<close>, current
  \<open>{a: h1, b: h3, c: h4}\<close> gives changed-or-added \<open>{b, c}\<close> and nothing removed.
\<close>

theorem diff_classifies_witness:
  "distinct (map fst [(''a'', ''h1''), (''b'', ''h2'')])
   \<and> diffTables [(''a'', ''h1''), (''b'', ''h2'')] [(''a'', ''h1''), (''b'', ''h3''), (''c'', ''h4'')]
       = ([(''b'', True), (''c'', True)], [])
   \<and> set (snd (diffTables [(''a'', ''h1''), (''b'', ''h2'')]
                 [(''a'', ''h1''), (''b'', ''h3''), (''c'', ''h4'')]))
       = dom (map_of [(''a'', ''h1''), (''b'', ''h2'')])
           - dom (map_of [(''a'', ''h1''), (''b'', ''h3''), (''c'', ''h4'')])"
proof -
  have h: "distinct (map fst [(''a'', ''h1''), (''b'', ''h2'')])" by simp
  have e: "diffTables [(''a'', ''h1''), (''b'', ''h2'')] [(''a'', ''h1''), (''b'', ''h3''), (''c'', ''h4'')]
       = ([(''b'', True), (''c'', True)], [])"
    by (simp add: diffTables_def)
  from diff_classifies [OF h, of "[(''a'', ''h1''), (''b'', ''h3''), (''c'', ''h4'')]"] h e
  show ?thesis by blast
qed

text \<open>
  C7. The quarter key is the year followed by \<^verbatim>\<open>now.Month()/4\<close>, which is not the quarter of
  the year: July 2022 gets the key of April 2022 and not that of August 2022.
\<close>

theorem quarter_key_july:
  "quarter \<lparr>Year = 2022, Month = 7, Day = 15, Weekday = 5, ISOWeek = 28\<rparr> = ''-Q20221.tar.zst''
   \<and> quarter \<lparr>Year = 2022, Month = 4, Day = 15, Weekday = 5, ISOWeek = 15\<rparr> = ''-Q20221.tar.zst''
   \<and> quarter \<lparr>Year = 2022, Month = 8, Day = 15, Weekday = 1, ISOWeek = 33\<rparr> = ''-Q20222.tar.zst''"
  by (simp add: quarter_def show_int_def)

text \<open>
  C4. When a file exists at the destination, \<open>createDeltaBackup\<close> returns with the file
  system as it was: nothing is written to the destination, its removal list or its profile.
  And after a call that returned, the destination exists, so that a second call with the
  same arguments changes nothing.
\<close>

theorem createDeltaBackup_existing_noop:
  "(files s dest \<noteq> None \<longrightarrow> createDeltaBackup src ch rm dest pn pd s = Inr s) \<and>
   (createDeltaBackup src ch rm dest pn pd s = Inr s1 \<longrightarrow>
      files s1 dest \<noteq> None \<and> createDeltaBackup src ch rm dest pn pd s1 = Inr s1)"
proof -
  have present: "createDeltaBackup src ch rm dest pn pd t = Inr t" if "files t dest \<noteq> None" for t
    using that by (simp add: createDeltaBackup_def)
  have built: "files s1 dest \<noteq> None" if r: "createDeltaBackup src ch rm dest pn pd s = Inr s1"
  proof (cases "files s dest")
    case None
    with r show ?thesis
      by (auto simp: createDeltaBackup_def profileAndClose_def put_def Let_def
               split: option.splits sum.splits if_splits prod.splits wrote.splits)
  next
    case (Some f)
    with r show ?thesis by (simp add: createDeltaBackup_def)
  qed
  show ?thesis using present built by blast
qed

text \<open>
  The month delta of \<open>fsA\<close> is there and the call changes nothing; and after the call that
  builds \<open>delta.tar.zst\<close> in \<open>fsC\<close>, the same call again changes nothing.
\<close>

theorem createDeltaBackup_existing_noop_witness:
  "files fsA ''lxd-backup-web-M8-delta.tar.zst'' \<noteq> None
   \<and> createDeltaBackup ''tmp'' [(''a'', True)] [] ''lxd-backup-web-M8-delta.tar.zst''
         ''default'' ''cfg'' fsA = Inr fsA
   \<and> files fsC ''delta.tar.zst'' = None
   \<and> isl (createDeltaBackup ''twice.tar.zst'' [(''f'', True)] [] ''delta.tar.zst'' ''default'' ''cfg'' fsC)
       = False
   \<and> files (projr (createDeltaBackup ''twice.tar.zst'' [(''f'', True)] [] ''delta.tar.zst''
                     ''default'' ''cfg'' fsC)) ''delta.tar.zst'' \<noteq> None
   \<and> createDeltaBackup ''twice.tar.zst'' [(''f'', True)] [] ''delta.tar.zst'' ''default'' ''cfg''
         (projr (createDeltaBackup ''twice.tar.zst'' [(''f'', True)] [] ''delta.tar.zst''
                   ''default'' ''cfg'' fsC))
       = Inr (projr (createDeltaBackup ''twice.tar.zst'' [(''f'', True)] [] ''delta.tar.zst''
                       ''default'' ''cfg'' fsC))"
proof -
  let ?r = "createDeltaBackup ''twice.tar.zst'' [(''f'', True)] [] ''delta.tar.zst'' ''default'' ''cfg'' fsC"
  have h: "files fsA ''lxd-backup-web-M8-delta.tar.zst'' \<noteq> None"
    by (simp add: fsA_def)
  have a: "files fsC ''delta.tar.zst'' = None" by (simp add: fsC_def)
  have b: "isl ?r = False" by code_simp
  then have c: "?r = Inr (projr ?r)" by (cases ?r) auto
  from createDeltaBackup_existing_noop
         [of fsA "''lxd-backup-web-M8-delta.tar.zst''" "''tmp''" "[(''a'', True)]" "[]"
             "''default''" "''cfg''" fsA]
       createDeltaBackup_existing_noop
         [of fsC "''delta.tar.zst''" "''twice.tar.zst''" "[(''f'', True)]" "[]"
             "''default''" "''cfg''" "projr ?r"]
       h a b c
  show ?thesis by blast
qed

section \<open>Eviction of the bucket files\<close>

lemma bucket_paths_distinct:
  "base @ monthDelta now \<noteq> base @ weekDelta now"
  "base @ monthDelta now \<noteq> base @ dayDelta now"
  "base @ weekDelta now \<noteq> base @ dayDelta now"
  by (simp_all add: monthDelta_def weekDelta_def dayDelta_def)

lemma evict_files:
  "files (evict now base s) p =
     (if p = base @ dayDelta now then None
      else if p = base @ weekDelta now \<and> Weekday now = 1 then None
      else if p = base @ monthDelta now \<and> Day now = 1 then None
      else files s p)"
  by (simp add: evict_def os_Remove_def Let_def)

text \<open>
  The removals come after the \<^verbatim>\<open>continue\<close> of a run without changes. When the comparison
  finds nothing, the run returns and every file but the log is as it was, whatever the
  date: no bucket file is deleted, and the export stays. When it finds something, the deltas
  are built on the evicted file system.
\<close>

lemma deltaRun_without_changes:
  assumes "loadFileData ((lxdBackupPrefix @ name c) @ quarter now @ ''.md5sum'') s = Inr quarterSums"
    and "diffTables quarterSums sums = ([], [])"
  shows "\<exists>s'. deltaRun now nowString lxdBackupPrefix c exportName sums s = Inr s' \<and>
              (\<forall>p. p \<noteq> (lxdBackupPrefix @ name c) @ ''.log'' \<longrightarrow> files s' p = files s p)"
proof -
  let ?log = "(lxdBackupPrefix @ name c) @ ''.log''"
  let ?w = "writeText ?log (noChangesLine nowString) s"
  let ?s' = "case ?w of NotOpened \<Rightarrow> s | Cut s1 \<Rightarrow> s1 | Written s1 \<Rightarrow> s1"
  have run: "deltaRun now nowString lxdBackupPrefix c exportName sums s = Inr ?s'"
    using assms by (simp add: deltaRun_def Let_def)
  have same: "files ?s' p = files s p" if "p \<noteq> ?log" for p
  proof (cases ?w)
    case NotOpened
    then show ?thesis by simp
  next
    case (Cut s1)
    then have "files s1 p = files s p" using that writeText_other by blast
    with Cut show ?thesis by simp
  next
    case (Written s1)
    then have "files s1 p = files s p" using that writeText_other by blast
    with Written show ?thesis by simp
  qed
  from run same show ?thesis by blast
qed

lemma deltaRun_with_changes:
  assumes "loadFileData ((lxdBackupPrefix @ name c) @ quarter now @ ''.md5sum'') s = Inr quarterSums"
    and "diffTables quarterSums sums = (ch, rm)"
    and "\<not> (ch = [] \<and> rm = [])"
  shows "deltaRun now nowString lxdBackupPrefix c exportName sums s =
           finishDelta now nowString (lxdBackupPrefix @ name c) exportName ch rm c
             (evict now (lxdBackupPrefix @ name c) s)"
  using assms by (auto simp: deltaRun_def Let_def)

text \<open>The two runs over \<open>fsMay\<close>, step by step.\<close>

lemma monday_state:
  "mondayRun =
     Inr (put ''lxd-backup-web.log'' (Data (noChangesLine ''2023-05-01''))
           (put ''lxd-temporary-backup-1.tar.zstd'' (Tar exportX) fsMay))"
proof -
  let ?u = "put ''lxd-temporary-backup-1.tar.zstd'' (Tar exportX) fsMay"
  have nm: "name web = ''web''" by (simp add: web_def)
  have qt: "quarter monday1May = ''-Q20231.tar.zst''" by code_simp
  have ex: "files fsMay ''lxd-backup-web-Q20231.tar.zst'' = Some (Tar exportX)" by (simp add: fsMay_def)
  have fe: "fetchFileDataFromTar toySum ''lxd-temporary-backup-1.tar.zstd'' ?u = Inr [(''f'', ''78'')]"
    by code_simp
  have lo: "loadFileData ''lxd-backup-web-Q20231.tar.zst.md5sum'' ?u = Inr [(''f'', ''78'')]"
    by code_simp
  have di: "diffTables [(''f'', ''78'')] [(''f'', ''78'')] = ([], [])" by (simp add: diffTables_def)
  have wr: "writeText ''lxd-backup-web.log'' t ?u = Written (put ''lxd-backup-web.log'' (Data t) ?u)" for t
    by (simp add: writeText_def put_def fsMay_def)
  show ?thesis
    by (simp add: mondayRun_def backupContainer_def deltaRun_def Let_def nm qt ex fe lo di wr)
qed

lemma tuesday_state:
  "tuesdayRun =
     Inr (os_Remove ''lxd-temporary-backup-2.tar.zstd''
           (put ''lxd-backup-web.log'' (Data (statusLine ''2023-05-02'' [(''f'', True)] []))
             (put ''lxd-backup-web-WD2-delta.tar.zst'' (Tar exportY)
               (put ''lxd-backup-web-WD2-delta.tar.zst.default.profile'' (Data ''cfg'')
                 (put ''lxd-backup-web-WD2-delta.tar.zst.removed'' (Data [])
                   (put ''lxd-backup-web-WD2-delta.tar.zst'' (Tar \<lparr>entries = [memberF ''y''], clean = False\<rparr>)
                     (os_Remove ''lxd-backup-web-WD2-delta.tar.zst''
                       (put ''lxd-temporary-backup-2.tar.zstd'' (Tar exportY)
                         (put ''lxd-backup-web.log'' (Data (noChangesLine ''2023-05-01''))
                           (put ''lxd-temporary-backup-1.tar.zstd'' (Tar exportX) fsMay))))))))))"
proof -
  let ?m = "put ''lxd-backup-web.log'' (Data (noChangesLine ''2023-05-01''))
              (put ''lxd-temporary-backup-1.tar.zstd'' (Tar exportX) fsMay)"
  let ?u = "put ''lxd-temporary-backup-2.tar.zstd'' (Tar exportY) ?m"
  let ?e = "os_Remove ''lxd-backup-web-WD2-delta.tar.zst'' ?u"
  let ?ch = "[(''f'', True)]"
  have nm: "name web = ''web''" by (simp add: web_def)
  have qt: "quarter tuesday2May = ''-Q20231.tar.zst''" by code_simp
  have md: "monthDelta tuesday2May = ''-M5-delta.tar.zst''" by code_simp
  have wd: "weekDelta tuesday2May = ''-WN2-delta.tar.zst''" by code_simp
  have dd: "dayDelta tuesday2May = ''-WD2-delta.tar.zst''" by code_simp
  have ex: "files ?m ''lxd-backup-web-Q20231.tar.zst'' = Some (Tar exportX)"
    by (simp add: put_def fsMay_def)
  have fe: "fetchFileDataFromTar toySum ''lxd-temporary-backup-2.tar.zstd'' ?u = Inr [(''f'', ''79'')]"
    by code_simp
  have lo: "loadFileData ''lxd-backup-web-Q20231.tar.zst.md5sum'' ?u = Inr [(''f'', ''78'')]"
    by code_simp
  have di: "diffTables [(''f'', ''78'')] [(''f'', ''79'')] = (?ch, [])" by (simp add: diffTables_def)
  have ev: "evict tuesday2May ''lxd-backup-web'' ?u = ?e"
    by (simp add: evict_def Let_def tuesday2May_def dd [unfolded tuesday2May_def])
  have run: "tuesdayRun = finishDelta tuesday2May ''2023-05-02'' ''lxd-backup-web''
               ''lxd-temporary-backup-2.tar.zstd'' ?ch [] web ?e"
    by (simp add: tuesdayRun_def monday_state backupContainer_def deltaRun_def Let_def
                  nm qt ex fe lo di ev)
  have cM: "createDeltaBackup ''lxd-temporary-backup-2.tar.zstd'' ?ch [] ''lxd-backup-web-M5-delta.tar.zst''
              ''default'' ''cfg'' ?e = Inr ?e"
    by (simp add: createDeltaBackup_def os_Remove_def put_def fsMay_def)
  have cW: "createDeltaBackup ''lxd-temporary-backup-2.tar.zstd'' ?ch [] ''lxd-backup-web-WN2-delta.tar.zst''
              ''default'' ''cfg'' ?e = Inr ?e"
    by (simp add: createDeltaBackup_def os_Remove_def put_def fsMay_def)
  let ?f = "put ''lxd-backup-web-WD2-delta.tar.zst'' (Tar exportY)
               (put ''lxd-backup-web-WD2-delta.tar.zst.default.profile'' (Data ''cfg'')
                 (put ''lxd-backup-web-WD2-delta.tar.zst.removed'' (Data [])
                   (put ''lxd-backup-web-WD2-delta.tar.zst'' (Tar \<lparr>entries = [memberF ''y''], clean = False\<rparr>)
                     ?e)))"
  have cD: "createDeltaBackup ''lxd-temporary-backup-2.tar.zstd'' ?ch [] ''lxd-backup-web-WD2-delta.tar.zst''
              ''default'' ''cfg'' ?e = Inr ?f"
    by (simp add: createDeltaBackup_def profileAndClose_def writeProfile_def writeText_def
                  writerFails_def removedList_def tar_Read_def Let_def
                  os_Remove_def put_def fsMay_def exportY_def memberF_def)
  have pn: "profileName web = ''default''" and pd: "profile web = ''cfg''" by (simp_all add: web_def)
  have bd: "buildDeltas tuesday2May ''lxd-backup-web'' ''lxd-temporary-backup-2.tar.zstd'' ?ch [] web ?e = Inr ?f"
    by (simp add: buildDeltas_def md wd dd pn pd cM cW cD)
  have wr: "writeText ''lxd-backup-web.log'' t ?f = Written (put ''lxd-backup-web.log'' (Data t) ?f)" for t
    by (simp add: writeText_def os_Remove_def put_def fsMay_def)
  show ?thesis unfolding run by (simp add: finishDelta_def bd wr)
qed

text \<open>
  C5. The claim has the bucket files of the period before deleted on the rollover day even
  when the diff is empty. The code deletes nothing on a run without changes, so the files of
  the period before outlive the rollover, and since \<open>createDeltaBackup\<close> returns at once
  when a file is at its destination, they outlive the following runs too. On Monday
  1 May 2023 the backup directory holds the quarter backup and the deltas of earlier
  periods in the month bucket 5, the week bucket 2 and the day bucket 1; the container is
  unchanged, the run returns, and the three files are still there. On Tuesday the file \<open>f\<close>
  has changed and the run returns: the month bucket and the week bucket still hold the
  deltas of the earlier periods, and the change is in the day bucket 2 alone. The export of
  Monday is still there as well.
\<close>

theorem rollover_keeps_old_deltas:
  "Day monday1May = 1 \<and> Weekday monday1May = 1
   \<and> files fsMay ''lxd-backup-web-M5-delta.tar.zst'' = Some (Tar oldDelta)
   \<and> files fsMay ''lxd-backup-web-WN2-delta.tar.zst'' = Some (Tar oldDelta)
   \<and> files fsMay ''lxd-backup-web-WD1-delta.tar.zst'' = Some (Tar oldDelta)
   \<and> isl mondayRun = False
   \<and> files (projr mondayRun) ''lxd-backup-web-M5-delta.tar.zst'' = Some (Tar oldDelta)
   \<and> files (projr mondayRun) ''lxd-backup-web-WN2-delta.tar.zst'' = Some (Tar oldDelta)
   \<and> files (projr mondayRun) ''lxd-backup-web-WD1-delta.tar.zst'' = Some (Tar oldDelta)
   \<and> files (projr mondayRun) ''lxd-temporary-backup-1.tar.zstd'' = Some (Tar exportX)
   \<and> isl tuesdayRun = False
   \<and> files (projr tuesdayRun) ''lxd-backup-web-M5-delta.tar.zst'' = Some (Tar oldDelta)
   \<and> files (projr tuesdayRun) ''lxd-backup-web-WN2-delta.tar.zst'' = Some (Tar oldDelta)
   \<and> files (projr tuesdayRun) ''lxd-backup-web-WD2-delta.tar.zst'' = Some (Tar exportY)
   \<and> files (projr tuesdayRun) ''lxd-temporary-backup-1.tar.zstd'' = Some (Tar exportX)
   \<and> files (projr tuesdayRun) ''lxd-temporary-backup-2.tar.zstd'' = None"
proof -
  have d: "Day monday1May = 1 \<and> Weekday monday1May = 1" by (simp add: monday1May_def)
  have f1: "files fsMay ''lxd-backup-web-M5-delta.tar.zst'' = Some (Tar oldDelta)"
    by (simp add: fsMay_def)
  have f2: "files fsMay ''lxd-backup-web-WN2-delta.tar.zst'' = Some (Tar oldDelta)"
    by (simp add: fsMay_def)
  have f3: "files fsMay ''lxd-backup-web-WD1-delta.tar.zst'' = Some (Tar oldDelta)"
    by (simp add: fsMay_def)
  have m0: "isl mondayRun = False" by (simp add: monday_state)
  have m1: "files (projr mondayRun) ''lxd-backup-web-M5-delta.tar.zst'' = Some (Tar oldDelta)"
    by (simp add: monday_state put_def fsMay_def)
  have m2: "files (projr mondayRun) ''lxd-backup-web-WN2-delta.tar.zst'' = Some (Tar oldDelta)"
    by (simp add: monday_state put_def fsMay_def)
  have m3: "files (projr mondayRun) ''lxd-backup-web-WD1-delta.tar.zst'' = Some (Tar oldDelta)"
    by (simp add: monday_state put_def fsMay_def)
  have m4: "files (projr mondayRun) ''lxd-temporary-backup-1.tar.zstd'' = Some (Tar exportX)"
    by (simp add: monday_state put_def fsMay_def)
  have t0: "isl tuesdayRun = False" by (simp add: tuesday_state)
  have t1: "files (projr tuesdayRun) ''lxd-backup-web-M5-delta.tar.zst'' = Some (Tar oldDelta)"
    by (simp add: tuesday_state os_Remove_def put_def fsMay_def)
  have t2: "files (projr tuesdayRun) ''lxd-backup-web-WN2-delta.tar.zst'' = Some (Tar oldDelta)"
    by (simp add: tuesday_state os_Remove_def put_def fsMay_def)
  have t3: "files (projr tuesdayRun) ''lxd-backup-web-WD2-delta.tar.zst'' = Some (Tar exportY)"
    by (simp add: tuesday_state os_Remove_def put_def fsMay_def)
  have t4: "files (projr tuesdayRun) ''lxd-temporary-backup-1.tar.zstd'' = Some (Tar exportX)"
    by (simp add: tuesday_state os_Remove_def put_def fsMay_def)
  have t5: "files (projr tuesdayRun) ''lxd-temporary-backup-2.tar.zstd'' = None"
    by (simp add: tuesday_state os_Remove_def put_def fsMay_def)
  from d f1 f2 f3 m0 m1 m2 m3 m4 t0 t1 t2 t3 t4 t5 show ?thesis by blast
qed

section \<open>Fingerprinting\<close>

lemma fetchLoop_good_prefix:
  "\<forall>x\<in>set pre. regular x \<longrightarrow> intact x \<Longrightarrow>
   fetchLoop md5 fname (pre @ rest) cl fd = fetchLoop md5 fname rest cl (fingerprints md5 pre fd)"
  by (induction pre arbitrary: fd) (auto simp: regular_def intact_def io_Copy_def)

lemma fetchLoop_success:
  "fetchLoop md5 fname es cl fd = Inr t \<Longrightarrow>
   (\<forall>x\<in>set es. regular x \<longrightarrow> intact x) \<and> cl \<and> t = fingerprints md5 es fd"
  by (induction es arbitrary: fd) (auto simp: regular_def intact_def io_Copy_def split: if_splits)

lemma fetchLoop_all_good:
  "\<forall>x\<in>set es. regular x \<longrightarrow> intact x \<Longrightarrow>
   fetchLoop md5 fname es True fd = Inr (fingerprints md5 es fd)"
  using fetchLoop_good_prefix [of es md5 fname "[]" True fd] by simp

lemma fingerprints_append:
  "fingerprints md5 (xs @ ys) fd = fingerprints md5 ys (fingerprints md5 xs fd)"
  by (induction xs arbitrary: fd) auto

lemma fingerprints_distinct:
  "distinct (map fst fd) \<Longrightarrow> distinct (map fst (fingerprints md5 es fd))"
  by (induction es arbitrary: fd) (auto simp: distinct_update)

lemma fingerprints_dom:
  "dom (map_of (fingerprints md5 es fd)) =
     dom (map_of fd) \<union> {Name (hdr e) | e. e \<in> set es \<and> regular e}"
  by (induction es arbitrary: fd) (auto simp: update_conv')

lemma fingerprints_other:
  "\<forall>x\<in>set es. regular x \<longrightarrow> Name (hdr x) \<noteq> k \<Longrightarrow>
   map_of (fingerprints md5 es fd) k = map_of fd k"
  by (induction es arbitrary: fd) (auto simp: update_conv')

lemma fingerprints_last:
  assumes "regular e" and "\<forall>x\<in>set post. regular x \<longrightarrow> Name (hdr x) \<noteq> Name (hdr e)"
  shows "map_of (fingerprints md5 (pre @ e # post) fd) (Name (hdr e)) = Some (hexsum md5 (payload e))"
  using assms by (simp add: fingerprints_append fingerprints_other update_conv')

lemma fetchLoop_skips:
  "\<not> regular e \<Longrightarrow>
   fetchLoop md5 fname (pre @ e # post) cl fd = fetchLoop md5 fname (pre @ post) cl fd"
  by (induction pre arbitrary: fd) (auto simp: regular_def split: prod.splits)

text \<open>
  C9, as the code has it. Take a member \<open>e\<close> of the archive at \<open>fname\<close> that the loop reaches
  (every regular member before it is intact). If \<open>e\<close> is regular and the copy ends with an
  error, fingerprinting fails with the copy error, which names neither the member nor the
  byte counts. If the copy ends without error and the bytes copied are not as many as the
  declared size, it fails with the error that names the member path, the archive, the
  declared size and the bytes copied. If fingerprinting returns a table, \<open>e\<close> was intact and
  the table has exactly one entry for its path. A member that is not regular is skipped
  without being read: the result is that of the archive without it. And when every regular
  member is intact and the archive ends cleanly, fingerprinting returns the table.
\<close>

theorem fingerprint_member_outcome:
  assumes "files s fname = Some (Tar a)"
    and "entries a = pre @ e # post"
    and "\<forall>x\<in>set pre. regular x \<longrightarrow> intact x"
  shows "(regular e \<and> broken e \<longrightarrow> fetchFileDataFromTar md5 fname s = Inl CopyFailed)
       \<and> (regular e \<and> \<not> broken e \<and> length (payload e) \<noteq> Size (hdr e) \<longrightarrow>
            fetchFileDataFromTar md5 fname s =
              Inl (SizeMismatch (Name (hdr e)) fname (Size (hdr e)) (length (payload e))))
       \<and> (\<forall>t. regular e \<and> fetchFileDataFromTar md5 fname s = Inr t \<longrightarrow>
              intact e \<and> distinct (map fst t) \<and> (\<exists>d. map_of t (Name (hdr e)) = Some d))
       \<and> (\<not> regular e \<longrightarrow>
            fetchFileDataFromTar md5 fname s =
              fetchLoop md5 fname (pre @ post) (clean a) [])
       \<and> ((\<forall>x\<in>set (entries a). regular x \<longrightarrow> intact x) \<and> clean a \<longrightarrow>
            fetchFileDataFromTar md5 fname s = Inr (fingerprints md5 (entries a) []))"
proof -
  have f: "fetchFileDataFromTar md5 fname s = fetchLoop md5 fname (pre @ e # post) (clean a) []"
    using assms(1,2) by (simp add: fetchFileDataFromTar_def)
  have step: "fetchFileDataFromTar md5 fname s =
      fetchLoop md5 fname (e # post) (clean a) (fingerprints md5 pre [])"
    unfolding f by (rule fetchLoop_good_prefix [OF assms(3)])
  have c1: "regular e \<and> broken e \<longrightarrow> fetchFileDataFromTar md5 fname s = Inl CopyFailed"
    unfolding step by (simp add: regular_def io_Copy_def)
  have c2: "regular e \<and> \<not> broken e \<and> length (payload e) \<noteq> Size (hdr e) \<longrightarrow>
            fetchFileDataFromTar md5 fname s =
              Inl (SizeMismatch (Name (hdr e)) fname (Size (hdr e)) (length (payload e)))"
    unfolding step by (simp add: regular_def io_Copy_def)
  have c3: "intact e \<and> distinct (map fst t) \<and> (\<exists>d. map_of t (Name (hdr e)) = Some d)"
    if r: "regular e" and ok: "fetchFileDataFromTar md5 fname s = Inr t" for t
  proof -
    from ok [unfolded f] fetchLoop_success
    have all: "\<forall>x\<in>set (pre @ e # post). regular x \<longrightarrow> intact x"
      and t: "t = fingerprints md5 (pre @ e # post) []"
      by blast+
    from all r have "intact e" by simp
    moreover have "distinct (map fst t)" unfolding t by (rule fingerprints_distinct) simp
    moreover have "Name (hdr e) \<in> dom (map_of t)"
      unfolding t fingerprints_dom using r by auto
    ultimately show ?thesis by blast
  qed
  have c4: "\<not> regular e \<longrightarrow>
            fetchFileDataFromTar md5 fname s = fetchLoop md5 fname (pre @ post) (clean a) []"
    unfolding f by (simp add: fetchLoop_skips)
  have c5: "(\<forall>x\<in>set (entries a). regular x \<longrightarrow> intact x) \<and> clean a \<longrightarrow>
            fetchFileDataFromTar md5 fname s = Inr (fingerprints md5 (entries a) [])"
    using assms(1) fetchLoop_all_good [of "entries a" md5 fname "[]"]
    by (auto simp: fetchFileDataFromTar_def)
  from c1 c2 c3 c4 c5 show ?thesis by blast
qed

text \<open>
  The archive with \<open>f\<close>, a directory and \<open>f\<close> again: the directory is reached after an intact
  member and skipped, and the table has one entry.
\<close>

theorem fingerprint_member_outcome_witness:
  "files fsC ''twice.tar.zst'' = Some (Tar twiceArchive)
   \<and> entries twiceArchive = [memberF ''x''] @ dirD # [memberF ''y'']
   \<and> regular (memberF ''x'') \<and> intact (memberF ''x'')
   \<and> \<not> regular dirD
   \<and> fetchFileDataFromTar toySum ''twice.tar.zst'' fsC
       = fetchLoop toySum ''twice.tar.zst'' ([memberF ''x''] @ [memberF ''y'']) (clean twiceArchive) []
   \<and> fetchFileDataFromTar toySum ''twice.tar.zst'' fsC = Inr [(''f'', ''79'')]"
proof -
  have h1: "files fsC ''twice.tar.zst'' = Some (Tar twiceArchive)" by (simp add: fsC_def)
  have h2: "entries twiceArchive = [memberF ''x''] @ dirD # [memberF ''y'']"
    by (simp add: twiceArchive_def)
  have h3: "\<forall>x\<in>set [memberF ''x'']. regular x \<longrightarrow> intact x"
    by (simp add: memberF_def intact_def payload_def)
  have h4: "\<not> regular dirD" by (simp add: dirD_def regular_def)
  have h5: "regular (memberF ''x'') \<and> intact (memberF ''x'')"
    by (simp add: memberF_def regular_def intact_def payload_def)
  have v: "fetchFileDataFromTar toySum ''twice.tar.zst'' fsC = Inr [(''f'', ''79'')]"
    by code_simp
  from fingerprint_member_outcome [OF h1 h2 h3, of toySum] h1 h2 h4 h5 v
  show ?thesis by simp
qed

text \<open>
  C9 as stated fails: the member \<open>f\<close> of \<open>cut.tar.zst\<close> declares 5 bytes and its reader ends
  with an error after 2. The run fails with the copy error, not with the error that names
  \<open>f\<close>, 5 and 2.
\<close>

theorem fingerprint_truncation_counterexample:
  "files fsC ''cut.tar.zst'' = Some (Tar cutArchive)
   \<and> entries cutArchive = [cutF]
   \<and> regular cutF \<and> Name (hdr cutF) = ''f'' \<and> Size (hdr cutF) = 5 \<and> length (payload cutF) = 2
   \<and> fetchFileDataFromTar toySum ''cut.tar.zst'' fsC = Inl CopyFailed
   \<and> fetchFileDataFromTar toySum ''cut.tar.zst'' fsC \<noteq> Inl (SizeMismatch ''f'' ''cut.tar.zst'' 5 2)"
  by (simp add: fsC_def cutArchive_def cutF_def regular_def payload_def
        fetchFileDataFromTar_def io_Copy_def)

section \<open>Reading the fingerprint file\<close>

lemma checksumsOf_success:
  "checksumsOf c cs = Inr t \<Longrightarrow> \<forall>l\<in>set c. 2 \<le> length l"
  by (induction c arbitrary: cs) (auto split: list.splits)

lemma checksumsOf_other:
  "checksumsOf c cs = Inr t \<Longrightarrow> \<forall>l\<in>set c. take 1 l \<noteq> [k] \<Longrightarrow> map_of t k = map_of cs k"
  by (induction c arbitrary: cs) (auto split: list.splits simp: update_conv')

lemma checksumsOf_append:
  "checksumsOf (xs @ ys) cs = (case checksumsOf xs cs of Inl e \<Rightarrow> Inl e | Inr t \<Rightarrow> checksumsOf ys t)"
  by (induction xs arbitrary: cs) (auto split: list.splits)

lemma checksumsOf_last:
  assumes "checksumsOf (pre @ (k # v # others) # post) cs = Inr t"
    and "\<forall>l\<in>set post. take 1 l \<noteq> [k]"
  shows "map_of t k = Some v"
proof -
  from assms(1) obtain t1 where t1: "checksumsOf pre cs = Inr t1"
    and r: "checksumsOf post (AList.update k v t1) = Inr t"
    by (auto simp: checksumsOf_append split: sum.splits)
  from checksumsOf_other [OF r assms(2)] show ?thesis by (simp add: update_conv')
qed

text \<open>
  C10. When fingerprinting returns a table, a regular member \<open>e\<close> that no later regular
  member shares its path with has its own digest in the table: of two regular members with
  one path, the later one's digest is kept. When loading a fingerprint file returns a
  table, a record \<open>k, v\<close> that no later record shares its first field with gives \<open>k\<close> the
  digest \<open>v\<close>: of two records with one path, the later one's digest is kept.
\<close>

theorem last_occurrence_wins:
  "(files s fname = Some (Tar a) \<and> entries a = pre @ e # post \<and> regular e
      \<and> (\<forall>x\<in>set post. regular x \<longrightarrow> Name (hdr x) \<noteq> Name (hdr e))
      \<and> fetchFileDataFromTar md5 fname s = Inr t
      \<longrightarrow> map_of t (Name (hdr e)) = Some (hexsum md5 (payload e)))
   \<and> (files s' fname' = Some (Data txt) \<and> csv_ReadAll txt = Inr (before @ (k # v # others) # after)
      \<and> (\<forall>l\<in>set after. take 1 l \<noteq> [k])
      \<and> loadFileData fname' s' = Inr t'
      \<longrightarrow> map_of t' k = Some v)"
proof (intro conjI impI)
  assume h: "files s fname = Some (Tar a) \<and> entries a = pre @ e # post \<and> regular e
      \<and> (\<forall>x\<in>set post. regular x \<longrightarrow> Name (hdr x) \<noteq> Name (hdr e))
      \<and> fetchFileDataFromTar md5 fname s = Inr t"
  then have "fetchLoop md5 fname (pre @ e # post) (clean a) [] = Inr t"
    by (auto simp: fetchFileDataFromTar_def)
  then have "t = fingerprints md5 (pre @ e # post) []"
    using fetchLoop_success by blast
  with h show "map_of t (Name (hdr e)) = Some (hexsum md5 (payload e))"
    by (simp add: fingerprints_last)
next
  assume h: "files s' fname' = Some (Data txt)
      \<and> csv_ReadAll txt = Inr (before @ (k # v # others) # after)
      \<and> (\<forall>l\<in>set after. take 1 l \<noteq> [k])
      \<and> loadFileData fname' s' = Inr t'"
  then have "checksumsOf (before @ (k # v # others) # after) [] = Inr t'"
    by (auto simp: loadFileData_def)
  with h show "map_of t' k = Some v"
    using checksumsOf_last by blast
qed

text \<open>
  The archive with \<open>f\<close> twice (bytes \<open>x\<close>, then \<open>y\<close>) gives \<open>f\<close> the digest of \<open>y\<close>; the file
  with the records \<open>a,h1\<close> and \<open>a,h2\<close> gives \<open>a\<close> the digest \<open>h2\<close>.
\<close>

theorem last_occurrence_wins_witness:
  "files fsC ''twice.tar.zst'' = Some (Tar twiceArchive)
   \<and> entries twiceArchive = [memberF ''x'', dirD] @ memberF ''y'' # []
   \<and> regular (memberF ''y'')
   \<and> fetchFileDataFromTar toySum ''twice.tar.zst'' fsC = Inr [(''f'', ''79'')]
   \<and> map_of [(''f'', ''79'')] (Name (hdr (memberF ''y''))) = Some (hexsum toySum (payload (memberF ''y'')))
   \<and> files fsC ''dup.md5sum'' = Some (Data (''a,h1'' @ [CHR 0x0A] @ ''a,h2'' @ [CHR 0x0A]))
   \<and> csv_ReadAll (''a,h1'' @ [CHR 0x0A] @ ''a,h2'' @ [CHR 0x0A]) = Inr ([[''a'', ''h1'']] @ (''a'' # ''h2'' # []) # [])
   \<and> loadFileData ''dup.md5sum'' fsC = Inr [(''a'', ''h2'')]
   \<and> map_of [(''a'', ''h2'')] ''a'' = Some ''h2''"
proof -
  have a1: "files fsC ''twice.tar.zst'' = Some (Tar twiceArchive)" by (simp add: fsC_def)
  have a2: "entries twiceArchive = [memberF ''x'', dirD] @ memberF ''y'' # []"
    by (simp add: twiceArchive_def)
  have a3: "regular (memberF ''y'')" by (simp add: memberF_def regular_def)
  have a4: "\<forall>x\<in>set []. regular x \<longrightarrow> Name (hdr x) \<noteq> Name (hdr (memberF ''y''))" by simp
  have a5: "fetchFileDataFromTar toySum ''twice.tar.zst'' fsC = Inr [(''f'', ''79'')]"
    by code_simp
  have b1: "files fsC ''dup.md5sum'' = Some (Data (''a,h1'' @ [CHR 0x0A] @ ''a,h2'' @ [CHR 0x0A]))"
    by (simp add: fsC_def)
  have b2: "csv_ReadAll (''a,h1'' @ [CHR 0x0A] @ ''a,h2'' @ [CHR 0x0A])
              = Inr ([[''a'', ''h1'']] @ (''a'' # ''h2'' # []) # [])"
    by code_simp
  have b3: "\<forall>l\<in>set []. take 1 l \<noteq> [''a'']" by simp
  have b4: "loadFileData ''dup.md5sum'' fsC = Inr [(''a'', ''h2'')]" by code_simp
  from last_occurrence_wins
         [of fsC "''twice.tar.zst''" twiceArchive "[memberF ''x'', dirD]" "memberF ''y''" "[]"
             toySum "[(''f'', ''79'')]"
             fsC "''dup.md5sum''" "''a,h1'' @ [CHR 0x0A] @ ''a,h2'' @ [CHR 0x0A]"
             "[[''a'', ''h1'']]" "''a''" "''h2''" "[]" "[]" "[(''a'', ''h2'')]"]
       a1 a2 a3 a4 a5 b1 b2 b3 b4
  show ?thesis by blast
qed

section \<open>Building a delta\<close>

text \<open>What the copying loop writes for a member it selects and reads in full.\<close>

lemma tar_Read_full:
  assumes "tar_Read e n = (d, err)" and "length d = n"
  shows "d = take n (payload e)"
proof (cases "chunks e")
  case Nil
  with assms show ?thesis by (simp add: tar_Read_def payload_def)
next
  case (Cons c cs)
  with assms have d: "d = take n c" and "length (take n c) = n"
    by (auto simp: tar_Read_def)
  then have "n \<le> length c" by simp
  then show ?thesis using d Cons by (simp add: payload_def)
qed

lemma copyLoop_success:
  "copyLoop src ch lim es cl out = Inr out' \<Longrightarrow>
   cl \<and> (\<exists>new. out' = out @ new \<and>
          map (\<lambda>e. (hdr e, payload e)) new =
            map (\<lambda>e. (hdr e, take (Size (hdr e)) (payload e)))
              (filter (\<lambda>e. Name (hdr e) \<in> dom (map_of ch)) es))"
proof (induction es arbitrary: out)
  case Nil
  then show ?case by (simp split: if_splits)
next
  case (Cons e es)
  show ?case
  proof (cases "map_of ch (Name (hdr e))")
    case None
    with Cons.prems have "copyLoop src ch lim es cl out = Inr out'" by simp
    from Cons.IH [OF this] None show ?thesis by (auto simp: domIff)
  next
    case (Some present)
    obtain d err where rd: "tar_Read e (Size (hdr e)) = (d, err)"
      by (cases "tar_Read e (Size (hdr e))")
    from Cons.prems Some rd have len: "length d = Size (hdr e)"
      and rest: "copyLoop src ch lim es cl (out @ [\<lparr>hdr = hdr e, chunks = [d], broken = False\<rparr>]) = Inr out'"
      by (auto split: if_splits)
    from tar_Read_full [OF rd len] have d: "d = take (Size (hdr e)) (payload e)" .
    from Cons.IH [OF rest] obtain new where cl: cl
      and o: "out' = (out @ [\<lparr>hdr = hdr e, chunks = [d], broken = False\<rparr>]) @ new"
      and m: "map (\<lambda>e. (hdr e, payload e)) new =
            map (\<lambda>e. (hdr e, take (Size (hdr e)) (payload e)))
              (filter (\<lambda>e. Name (hdr e) \<in> dom (map_of ch)) es)"
      by blast
    have "out' = out @ (\<lparr>hdr = hdr e, chunks = [d], broken = False\<rparr> # new)" using o by simp
    moreover have "map (\<lambda>e. (hdr e, payload e)) (\<lparr>hdr = hdr e, chunks = [d], broken = False\<rparr> # new) =
            map (\<lambda>e. (hdr e, take (Size (hdr e)) (payload e)))
              (filter (\<lambda>e. Name (hdr e) \<in> dom (map_of ch)) (e # es))"
      using m Some d by (simp add: payload_def domIff)
    ultimately show ?thesis using cl by blast
  qed
qed

lemma createDeltaBackup_built:
  assumes "files s dest = None" and "files s src = Some f"
    and "createDeltaBackup src ch rm dest pn pd s = Inr s'"
  shows "\<exists>out. copyLoop src ch (tarFails s dest) (entries (as_archive f)) (clean (as_archive f)) [] = Inr out \<and>
               files s' dest = Some (Tar \<lparr>entries = out, clean = True\<rparr>)"
  using assms
  by (auto simp: createDeltaBackup_def profileAndClose_def Let_def put_def
           split: sum.splits if_splits prod.splits wrote.splits)

text \<open>
  What a call that returns has built. When \<open>createDeltaBackup\<close> finds no file at the
  destination and returns, the archive it leaves there is closed and holds, in the order of
  the source, exactly the members of the source whose path is in the changed-or-added set,
  each with the header of the source and the first \<^verbatim>\<open>hdr.Size\<close> bytes of its payload there;
  in a source whose members have their declared sizes that is the whole payload.
\<close>

lemma built_delta_members:
  assumes "files s dest = None"
    and "files s src = Some (Tar a)"
    and "createDeltaBackup src ch rm dest pn pd s = Inr s'"
  shows "\<exists>out. files s' dest = Some (Tar \<lparr>entries = out, clean = True\<rparr>)
           \<and> map (\<lambda>e. (hdr e, payload e)) out =
               map (\<lambda>e. (hdr e, take (Size (hdr e)) (payload e)))
                 (filter (\<lambda>e. Name (hdr e) \<in> dom (map_of ch)) (entries a))
           \<and> ((\<forall>e\<in>set (entries a). length (payload e) = Size (hdr e)) \<longrightarrow>
                map (\<lambda>e. (hdr e, payload e)) out =
                  filter (\<lambda>m. Name (fst m) \<in> dom (map_of ch)) (map (\<lambda>e. (hdr e, payload e)) (entries a)))"
proof -
  from createDeltaBackup_built [OF assms] obtain out
    where c: "copyLoop src ch (tarFails s dest) (entries a) (clean a) [] = Inr out"
      and f: "files s' dest = Some (Tar \<lparr>entries = out, clean = True\<rparr>)"
    by auto
  from copyLoop_success [OF c]
  have m: "map (\<lambda>e. (hdr e, payload e)) out =
               map (\<lambda>e. (hdr e, take (Size (hdr e)) (payload e)))
                 (filter (\<lambda>e. Name (hdr e) \<in> dom (map_of ch)) (entries a))"
    by auto
  have w: "map (\<lambda>e. (hdr e, payload e)) out =
      filter (\<lambda>m. Name (fst m) \<in> dom (map_of ch)) (map (\<lambda>e. (hdr e, payload e)) (entries a))"
    if sz: "\<forall>e\<in>set (entries a). length (payload e) = Size (hdr e)"
  proof -
    have "map (\<lambda>e. (hdr e, take (Size (hdr e)) (payload e)))
            (filter (\<lambda>e. Name (hdr e) \<in> dom (map_of ch)) (entries a)) =
          map (\<lambda>e. (hdr e, payload e)) (filter (\<lambda>e. Name (hdr e) \<in> dom (map_of ch)) (entries a))"
      using sz by (intro map_cong) auto
    also have "\<dots> = filter (\<lambda>m. Name (fst m) \<in> dom (map_of ch))
                      (map (\<lambda>e. (hdr e, payload e)) (entries a))"
      by (simp add: filter_map comp_def)
    finally show ?thesis using m by simp
  qed
  from f m w show ?thesis by blast
qed

text \<open>
  C3. The claim has the delta hold every changed member of every source archive. The loop
  calls \<^verbatim>\<open>tarreader.Read(d)\<close> once for a member and ends the process when that call has not
  filled \<^verbatim>\<open>d\<close>, and one call of \<^verbatim>\<open>Read\<close> may deliver less than the member. The archive
  \<open>pieces.tar.zst\<close> is well formed: it ends cleanly and its one member \<open>g\<close>, a regular file,
  delivers its 4 declared bytes without error, in two pieces of 2; \<open>fetchFileDataFromTar\<close>,
  which copies to the end of the member, fingerprints it. \<open>createDeltaBackup\<close> with the
  changed-or-added set \<open>{g}\<close> ends in the fatal error for a truncated input, wanted 4 got 2,
  and leaves at the destination an archive that was never closed, with the header of \<open>g\<close>
  and none of its bytes.
\<close>

theorem member_in_pieces_not_copied:
  "files fsC ''pieces.tar.zst'' = Some (Tar piecesArchive)
   \<and> entries piecesArchive = [piecesG] \<and> clean piecesArchive
   \<and> regular piecesG \<and> intact piecesG
   \<and> payload piecesG = ''abcd'' \<and> Size (hdr piecesG) = 4
   \<and> fetchFileDataFromTar toySum ''pieces.tar.zst'' fsC = Inr [(''g'', ''61626364'')]
   \<and> files fsC ''delta.tar.zst'' = None
   \<and> \<not> denied fsC ''delta.tar.zst'' \<and> tarFails fsC ''delta.tar.zst'' = None
   \<and> tar_Read piecesG (Size (hdr piecesG)) = (''ab'', False)
   \<and> createDeltaBackup ''pieces.tar.zst'' [(''g'', True)] [] ''delta.tar.zst'' ''default'' ''cfg'' fsC
       = Inl (InputTruncated 4 2,
              put ''delta.tar.zst''
                (Tar \<lparr>entries = [\<lparr>hdr = hdr piecesG, chunks = [], broken = True\<rparr>], clean = False\<rparr>)
                fsC)"
proof -
  have a: "files fsC ''pieces.tar.zst'' = Some (Tar piecesArchive)" by (simp add: fsC_def)
  have b: "entries piecesArchive = [piecesG] \<and> clean piecesArchive"
    by (simp add: piecesArchive_def)
  have c: "regular piecesG \<and> intact piecesG \<and> payload piecesG = ''abcd'' \<and> Size (hdr piecesG) = 4"
    by (simp add: regular_def intact_def payload_def piecesG_def)
  have d: "fetchFileDataFromTar toySum ''pieces.tar.zst'' fsC = Inr [(''g'', ''61626364'')]"
    by code_simp
  have e: "files fsC ''delta.tar.zst'' = None \<and> \<not> denied fsC ''delta.tar.zst''
           \<and> tarFails fsC ''delta.tar.zst'' = None"
    by (simp add: fsC_def)
  have r: "tar_Read piecesG (Size (hdr piecesG)) = (''ab'', False)"
    by (simp add: tar_Read_def piecesG_def)
  have f: "createDeltaBackup ''pieces.tar.zst'' [(''g'', True)] [] ''delta.tar.zst'' ''default'' ''cfg'' fsC
       = Inl (InputTruncated 4 2,
              put ''delta.tar.zst''
                (Tar \<lparr>entries = [\<lparr>hdr = hdr piecesG, chunks = [], broken = True\<rparr>], clean = False\<rparr>)
                fsC)"
    using a b e r by (simp add: createDeltaBackup_def writerFails_def piecesG_def)
  from a b c d e r f show ?thesis by blast
qed

section \<open>Failing writes\<close>

lemma copyLoop_error:
  "copyLoop src ch lim es cl out = Inl (e, out') \<Longrightarrow> e \<noteq> OpenFailed src \<and> e \<noteq> CreateFailed dest"
  by (induction es arbitrary: out) (auto split: if_splits option.splits prod.splits)

lemma createDeltaBackup_failed:
  assumes "files s dest = None"
    and "createDeltaBackup src ch rm dest pn pd s = Inl (err, s')"
  shows "(err = OpenFailed src \<or> err = CreateFailed dest) \<and> s' = s
       \<or> err \<noteq> OpenFailed src \<and> err \<noteq> CreateFailed dest \<and>
         (\<exists>out. files s' dest = Some (Tar \<lparr>entries = out, clean = False\<rparr>))"
proof (cases "files s src")
  case None
  with assms show ?thesis by (simp add: createDeltaBackup_def)
next
  case (Some f)
  show ?thesis
  proof (cases "denied s dest")
    case True
    with assms Some show ?thesis by (simp add: createDeltaBackup_def)
  next
    case False
    show ?thesis
    proof (cases "copyLoop src ch (tarFails s dest) (entries (as_archive f)) (clean (as_archive f)) []")
      case (Inl x)
      obtain e out where x: "x = (e, out)" by (cases x)
      from assms Some False Inl x copyLoop_error [of src ch _ _ _ "[]" e out dest]
      show ?thesis by (auto simp: createDeltaBackup_def put_def)
    next
      case (Inr out)
      from assms Some False Inr show ?thesis
        by (auto simp: createDeltaBackup_def profileAndClose_def writeProfile_def writeText_def
                       put_def Let_def
                 split: if_splits option.splits wrote.splits sum.splits)
    qed
  qed
qed

lemma writeFileData_failed:
  assumes "writeFileData out fd u = Inl (e, t)"
  shows "e = FileDataCreateFailed out \<and> t = u
       \<or> e = FileDataWriteFailed out \<and>
         (\<exists>q. q < length (csv_WriteAll (fileDataRecords fd)) \<and>
              t = put out (Data (take q (csv_WriteAll (fileDataRecords fd)))) u)"
  using assms
  by (auto simp: writeFileData_def writeText_Cut split: wrote.splits)

lemma baseline_run_failed:
  assumes "files s (lxdBackupPrefix @ name c @ quarter now) = None"
    and "fetchFileDataFromTar md5 (lxdBackupPrefix @ name c @ quarter now)
           (put (lxdBackupPrefix @ name c @ quarter now) (Tar a) s) = Inr sums"
    and "writeFileData ((lxdBackupPrefix @ name c @ quarter now) @ ''.md5sum'') sums
           (put (lxdBackupPrefix @ name c @ quarter now) (Tar a) s) = Inl (e, t)"
  shows "backupContainer md5 now nowString lxdBackupPrefix tmpName (Some a) c s = Inl (e, t)
       \<and> files t (lxdBackupPrefix @ name c @ quarter now) = Some (Tar a)"
proof -
  have run: "backupContainer md5 now nowString lxdBackupPrefix tmpName (Some a) c s = Inl (e, t)"
    using assms by (simp add: backupContainer_def Let_def)
  have there: "files t (lxdBackupPrefix @ name c @ quarter now) = Some (Tar a)"
    using writeFileData_failed [OF assms(3)] by (auto simp: put_def)
  from run there show ?thesis by simp
qed

text \<open>The first run of the quarter on the device of \<open>fsFull\<close>.\<close>

lemma april_state:
  "aprilRun =
     Inl (FileDataWriteFailed ''lxd-backup-web-Q20231.tar.zst.md5sum'',
          put ''lxd-backup-web-Q20231.tar.zst.md5sum'' (Data ''f,7'')
            (put ''lxd-backup-web-Q20231.tar.zst'' (Tar exportX) fsFull))"
proof -
  let ?u = "put ''lxd-backup-web-Q20231.tar.zst'' (Tar exportX) fsFull"
  have nm: "name web = ''web''" by (simp add: web_def)
  have qt: "quarter saturday1April = ''-Q20231.tar.zst''" by code_simp
  have ex: "files fsFull ''lxd-backup-web-Q20231.tar.zst'' = None" by (simp add: fsFull_def)
  have fe: "fetchFileDataFromTar toySum ''lxd-backup-web-Q20231.tar.zst'' ?u = Inr [(''f'', ''78'')]"
    by code_simp
  have text78: "csv_WriteAll (fileDataRecords [(''f'', ''78'')]) = ''f,78'' @ [CHR 0x0A]"
    by code_simp
  have wr: "writeFileData ''lxd-backup-web-Q20231.tar.zst.md5sum'' [(''f'', ''78'')] ?u
              = Inl (FileDataWriteFailed ''lxd-backup-web-Q20231.tar.zst.md5sum'',
                     put ''lxd-backup-web-Q20231.tar.zst.md5sum'' (Data ''f,7'') ?u)"
    by (simp add: writeFileData_def writeText_def text78 put_def fsFull_def)
  show ?thesis
    by (simp add: aprilRun_def backupContainer_def Let_def nm qt ex fe wr)
qed

text \<open>
  C6, as the code has it. Every error ends the process where it is found, and nothing is
  removed or closed on the way out.

  A call of \<open>createDeltaBackup\<close> that finds no file at the destination and ends in a fatal
  error: if the error is that the source cannot be opened or that the destination cannot be
  created, nothing has been written and the file system is as before. With every other
  error (the source archive cannot be read further, a member is read short, the tar writer
  fails, the removal list or the profile cannot be written) an archive that was never
  closed is left at the destination, and a later call with the same arguments finds it
  there and returns without touching anything.

  A call of \<open>writeFileData\<close> that ends in a fatal error: if the file cannot be created, the
  file system is as before; if the write fails, the file is left with a part of the records,
  shorter than their text.

  A first run of a quarter whose \<open>writeFileData\<close> fails ends with that error and leaves the
  quarter's archive in place, which is what the next run tests to decide that the quarter
  backup has been made.
\<close>

theorem failed_writes_left_behind:
  "(files s dest = None \<and> createDeltaBackup src ch rm dest pn pd s = Inl (err, s') \<longrightarrow>
      ((err = OpenFailed src \<or> err = CreateFailed dest) \<longrightarrow> s' = s)
      \<and> (err \<noteq> OpenFailed src \<and> err \<noteq> CreateFailed dest \<longrightarrow>
           (\<exists>out. files s' dest = Some (Tar \<lparr>entries = out, clean = False\<rparr>)) \<and>
           createDeltaBackup src ch rm dest pn pd s' = Inr s'))
   \<and> (writeFileData path fd u = Inl (e, t) \<longrightarrow>
        e = FileDataCreateFailed path \<and> t = u
        \<or> e = FileDataWriteFailed path \<and>
          (\<exists>q. q < length (csv_WriteAll (fileDataRecords fd)) \<and>
               t = put path (Data (take q (csv_WriteAll (fileDataRecords fd)))) u))
   \<and> (files v (lxdBackupPrefix @ name c @ quarter now) = None
      \<and> fetchFileDataFromTar md5 (lxdBackupPrefix @ name c @ quarter now)
           (put (lxdBackupPrefix @ name c @ quarter now) (Tar a) v) = Inr sums
      \<and> writeFileData ((lxdBackupPrefix @ name c @ quarter now) @ ''.md5sum'') sums
           (put (lxdBackupPrefix @ name c @ quarter now) (Tar a) v) = Inl (e', t') \<longrightarrow>
        backupContainer md5 now nowString lxdBackupPrefix tmpName (Some a) c v = Inl (e', t')
        \<and> files t' (lxdBackupPrefix @ name c @ quarter now) = Some (Tar a))"
proof -
  have delta: "((err = OpenFailed src \<or> err = CreateFailed dest) \<longrightarrow> s' = s)
      \<and> (err \<noteq> OpenFailed src \<and> err \<noteq> CreateFailed dest \<longrightarrow>
           (\<exists>out. files s' dest = Some (Tar \<lparr>entries = out, clean = False\<rparr>)) \<and>
           createDeltaBackup src ch rm dest pn pd s' = Inr s')"
    if h: "files s dest = None" "createDeltaBackup src ch rm dest pn pd s = Inl (err, s')"
  proof -
    have again: "createDeltaBackup src ch rm dest pn pd s' = Inr s'" if "files s' dest \<noteq> None"
      using that by (simp add: createDeltaBackup_def)
    from createDeltaBackup_failed [OF h] again show ?thesis by force
  qed
  have table: "e = FileDataCreateFailed path \<and> t = u
        \<or> e = FileDataWriteFailed path \<and>
          (\<exists>q. q < length (csv_WriteAll (fileDataRecords fd)) \<and>
               t = put path (Data (take q (csv_WriteAll (fileDataRecords fd)))) u)"
    if "writeFileData path fd u = Inl (e, t)"
    using writeFileData_failed [OF that] .
  have run: "backupContainer md5 now nowString lxdBackupPrefix tmpName (Some a) c v = Inl (e', t')
        \<and> files t' (lxdBackupPrefix @ name c @ quarter now) = Some (Tar a)"
    if "files v (lxdBackupPrefix @ name c @ quarter now) = None"
      and "fetchFileDataFromTar md5 (lxdBackupPrefix @ name c @ quarter now)
           (put (lxdBackupPrefix @ name c @ quarter now) (Tar a) v) = Inr sums"
      and "writeFileData ((lxdBackupPrefix @ name c @ quarter now) @ ''.md5sum'') sums
           (put (lxdBackupPrefix @ name c @ quarter now) (Tar a) v) = Inl (e', t')"
    using baseline_run_failed [OF that] .
  from delta table run show ?thesis by blast
qed

text \<open>
  The source \<open>torn.tar.zst\<close> gives its member \<open>f\<close> and then cannot be read further: the call
  ends with the read error and leaves an unclosed archive with \<open>f\<close> at \<open>delta.tar.zst\<close>. And
  on the device of \<open>fsFull\<close> the fingerprint file of the quarter is left with 3 of its 5
  bytes, beside the quarter's archive.
\<close>

theorem failed_writes_left_behind_witness:
  "files fsC ''delta.tar.zst'' = None
   \<and> createDeltaBackup ''torn.tar.zst'' [(''f'', True)] [] ''delta.tar.zst'' ''default'' ''cfg'' fsC
       = Inl (TarReadFailed ''torn.tar.zst'',
              put ''delta.tar.zst'' (Tar \<lparr>entries = [memberF ''x''], clean = False\<rparr>) fsC)
   \<and> (\<exists>out. files (put ''delta.tar.zst'' (Tar \<lparr>entries = [memberF ''x''], clean = False\<rparr>) fsC)
               ''delta.tar.zst'' = Some (Tar \<lparr>entries = out, clean = False\<rparr>))
   \<and> createDeltaBackup ''torn.tar.zst'' [(''f'', True)] [] ''delta.tar.zst'' ''default'' ''cfg''
        (put ''delta.tar.zst'' (Tar \<lparr>entries = [memberF ''x''], clean = False\<rparr>) fsC)
       = Inr (put ''delta.tar.zst'' (Tar \<lparr>entries = [memberF ''x''], clean = False\<rparr>) fsC)
   \<and> ''lxd-backup-'' @ name web @ quarter saturday1April = ''lxd-backup-web-Q20231.tar.zst''
   \<and> files fsFull ''lxd-backup-web-Q20231.tar.zst'' = None
   \<and> fetchFileDataFromTar toySum ''lxd-backup-web-Q20231.tar.zst''
        (put ''lxd-backup-web-Q20231.tar.zst'' (Tar exportX) fsFull)
       = Inr [(''f'', ''78'')]
   \<and> writeFileData ''lxd-backup-web-Q20231.tar.zst.md5sum'' [(''f'', ''78'')]
        (put ''lxd-backup-web-Q20231.tar.zst'' (Tar exportX) fsFull)
       = Inl (FileDataWriteFailed ''lxd-backup-web-Q20231.tar.zst.md5sum'',
              put ''lxd-backup-web-Q20231.tar.zst.md5sum'' (Data ''f,7'')
                (put ''lxd-backup-web-Q20231.tar.zst'' (Tar exportX) fsFull))
   \<and> (\<exists>q. q < length (csv_WriteAll (fileDataRecords [(''f'', ''78'')])) \<and>
           put ''lxd-backup-web-Q20231.tar.zst.md5sum'' (Data ''f,7'')
             (put ''lxd-backup-web-Q20231.tar.zst'' (Tar exportX) fsFull)
           = put ''lxd-backup-web-Q20231.tar.zst.md5sum''
               (Data (take q (csv_WriteAll (fileDataRecords [(''f'', ''78'')]))))
               (put ''lxd-backup-web-Q20231.tar.zst'' (Tar exportX) fsFull))
   \<and> aprilRun
       = Inl (FileDataWriteFailed ''lxd-backup-web-Q20231.tar.zst.md5sum'',
              put ''lxd-backup-web-Q20231.tar.zst.md5sum'' (Data ''f,7'')
                (put ''lxd-backup-web-Q20231.tar.zst'' (Tar exportX) fsFull))
   \<and> files (put ''lxd-backup-web-Q20231.tar.zst.md5sum'' (Data ''f,7'')
               (put ''lxd-backup-web-Q20231.tar.zst'' (Tar exportX) fsFull))
         ''lxd-backup-web-Q20231.tar.zst'' = Some (Tar exportX)"
proof -
  let ?d = "put ''delta.tar.zst'' (Tar \<lparr>entries = [memberF ''x''], clean = False\<rparr>) fsC"
  let ?u = "put ''lxd-backup-web-Q20231.tar.zst'' (Tar exportX) fsFull"
  let ?t = "put ''lxd-backup-web-Q20231.tar.zst.md5sum'' (Data ''f,7'') ?u"
  have h1: "files fsC ''delta.tar.zst'' = None" by (simp add: fsC_def)
  have h2: "createDeltaBackup ''torn.tar.zst'' [(''f'', True)] [] ''delta.tar.zst'' ''default'' ''cfg'' fsC
       = Inl (TarReadFailed ''torn.tar.zst'', ?d)"
    by (simp add: createDeltaBackup_def fsC_def tornArchive_def memberF_def tar_Read_def
                  writerFails_def)
  have q: "''lxd-backup-'' @ name web @ quarter saturday1April = ''lxd-backup-web-Q20231.tar.zst''"
    by code_simp
  have m: "''lxd-backup-web-Q20231.tar.zst'' @ ''.md5sum'' = ''lxd-backup-web-Q20231.tar.zst.md5sum''"
    by simp
  have h3: "files fsFull ''lxd-backup-web-Q20231.tar.zst'' = None" by (simp add: fsFull_def)
  have h4: "fetchFileDataFromTar toySum ''lxd-backup-web-Q20231.tar.zst'' ?u = Inr [(''f'', ''78'')]"
    by code_simp
  have text78: "csv_WriteAll (fileDataRecords [(''f'', ''78'')]) = ''f,78'' @ [CHR 0x0A]"
    by code_simp
  have h5: "writeFileData ''lxd-backup-web-Q20231.tar.zst.md5sum'' [(''f'', ''78'')] ?u
              = Inl (FileDataWriteFailed ''lxd-backup-web-Q20231.tar.zst.md5sum'', ?t)"
    by (simp add: writeFileData_def writeText_def text78 put_def fsFull_def)
  have e1: "TarReadFailed ''torn.tar.zst'' \<noteq> OpenFailed ''torn.tar.zst''
            \<and> TarReadFailed ''torn.tar.zst'' \<noteq> CreateFailed ''delta.tar.zst''"
    by simp
  have e2: "FileDataWriteFailed ''lxd-backup-web-Q20231.tar.zst.md5sum''
              \<noteq> FileDataCreateFailed ''lxd-backup-web-Q20231.tar.zst.md5sum''"
    by simp
  note T = failed_writes_left_behind
         [of fsC "''delta.tar.zst''" "''torn.tar.zst''" "[(''f'', True)]" "[]" "''default''" "''cfg''"
             "TarReadFailed ''torn.tar.zst''" ?d
             "''lxd-backup-web-Q20231.tar.zst.md5sum''" "[(''f'', ''78'')]" ?u
             "FileDataWriteFailed ''lxd-backup-web-Q20231.tar.zst.md5sum''" ?t
             fsFull "''lxd-backup-''" web saturday1April toySum exportX "[(''f'', ''78'')]"
             "FileDataWriteFailed ''lxd-backup-web-Q20231.tar.zst.md5sum''" ?t
             "''2023-04-01''" "''lxd-temporary-backup-0.tar.zstd''", unfolded q m]
  from T h1 h2 e1
  have p1: "(\<exists>out. files ?d ''delta.tar.zst'' = Some (Tar \<lparr>entries = out, clean = False\<rparr>))
            \<and> createDeltaBackup ''torn.tar.zst'' [(''f'', True)] [] ''delta.tar.zst'' ''default'' ''cfg'' ?d
                = Inr ?d"
    by blast
  from T h5 e2
  have p2: "\<exists>q. q < length (csv_WriteAll (fileDataRecords [(''f'', ''78'')])) \<and>
              ?t = put ''lxd-backup-web-Q20231.tar.zst.md5sum''
                     (Data (take q (csv_WriteAll (fileDataRecords [(''f'', ''78'')])))) ?u"
    by blast
  from T h3 h4 h5
  have p3: "aprilRun = Inl (FileDataWriteFailed ''lxd-backup-web-Q20231.tar.zst.md5sum'', ?t)
            \<and> files ?t ''lxd-backup-web-Q20231.tar.zst'' = Some (Tar exportX)"
    unfolding aprilRun_def by blast
  from h1 h2 p1 q h3 h4 h5 p2 p3 show ?thesis by blast
qed

text \<open>
  C6 as stated fails, for the delta and for the baseline. After the failed call on
  \<open>torn.tar.zst\<close> a file exists at the destination, it is not a complete archive, and the
  next call returns as if the delta had been built, leaving the unclosed archive there.
  And the first run of the quarter on the device of \<open>fsFull\<close> ends in the write error of
  \<open>writeFileData\<close>, leaving the quarter's archive and a fingerprint file with 3 of the 5
  bytes of its one record; the run of the next day finds the archive, reads the cut file
  as the table of the quarter, with the digest \<open>7\<close> for \<open>78\<close>, and writes the unchanged file
  \<open>f\<close> to the deltas.
\<close>

theorem half_written_counterexample:
  "files fsC ''delta.tar.zst'' = None
   \<and> createDeltaBackup ''torn.tar.zst'' [(''f'', True)] [] ''delta.tar.zst'' ''default'' ''cfg'' fsC
       = Inl (TarReadFailed ''torn.tar.zst'',
              put ''delta.tar.zst'' (Tar \<lparr>entries = [memberF ''x''], clean = False\<rparr>) fsC)
   \<and> files (put ''delta.tar.zst'' (Tar \<lparr>entries = [memberF ''x''], clean = False\<rparr>) fsC)
         ''delta.tar.zst''
       = Some (Tar \<lparr>entries = [memberF ''x''], clean = False\<rparr>)
   \<and> createDeltaBackup ''torn.tar.zst'' [(''f'', True)] [] ''delta.tar.zst'' ''default'' ''cfg''
        (put ''delta.tar.zst'' (Tar \<lparr>entries = [memberF ''x''], clean = False\<rparr>) fsC)
       = Inr (put ''delta.tar.zst'' (Tar \<lparr>entries = [memberF ''x''], clean = False\<rparr>) fsC)
   \<and> csv_WriteAll (fileDataRecords [(''f'', ''78'')]) = ''f,78'' @ [CHR 0x0A]
   \<and> isl aprilRun
   \<and> fst (projl aprilRun) = FileDataWriteFailed ''lxd-backup-web-Q20231.tar.zst.md5sum''
   \<and> files (snd (projl aprilRun)) ''lxd-backup-web-Q20231.tar.zst'' = Some (Tar exportX)
   \<and> files (snd (projl aprilRun)) ''lxd-backup-web-Q20231.tar.zst.md5sum'' = Some (Data ''f,7'')
   \<and> loadFileData ''lxd-backup-web-Q20231.tar.zst.md5sum'' (snd (projl aprilRun)) = Inr [(''f'', ''7'')]
   \<and> isl sundayRun = False
   \<and> files (projr sundayRun) ''lxd-backup-web-WD0-delta.tar.zst'' = Some (Tar exportX)"
proof -
  have a: "files fsC ''delta.tar.zst'' = None
   \<and> createDeltaBackup ''torn.tar.zst'' [(''f'', True)] [] ''delta.tar.zst'' ''default'' ''cfg'' fsC
       = Inl (TarReadFailed ''torn.tar.zst'',
              put ''delta.tar.zst'' (Tar \<lparr>entries = [memberF ''x''], clean = False\<rparr>) fsC)
   \<and> files (put ''delta.tar.zst'' (Tar \<lparr>entries = [memberF ''x''], clean = False\<rparr>) fsC)
         ''delta.tar.zst''
       = Some (Tar \<lparr>entries = [memberF ''x''], clean = False\<rparr>)
   \<and> createDeltaBackup ''torn.tar.zst'' [(''f'', True)] [] ''delta.tar.zst'' ''default'' ''cfg''
        (put ''delta.tar.zst'' (Tar \<lparr>entries = [memberF ''x''], clean = False\<rparr>) fsC)
       = Inr (put ''delta.tar.zst'' (Tar \<lparr>entries = [memberF ''x''], clean = False\<rparr>) fsC)"
    by (simp add: createDeltaBackup_def fsC_def tornArchive_def memberF_def tar_Read_def put_def
                  writerFails_def)
  have b: "csv_WriteAll (fileDataRecords [(''f'', ''78'')]) = ''f,78'' @ [CHR 0x0A]" by code_simp
  have c: "isl aprilRun" by (simp add: april_state)
  have d: "fst (projl aprilRun) = FileDataWriteFailed ''lxd-backup-web-Q20231.tar.zst.md5sum''"
    by (simp add: april_state)
  have e: "files (snd (projl aprilRun)) ''lxd-backup-web-Q20231.tar.zst'' = Some (Tar exportX)"
    by (simp add: april_state put_def fsFull_def)
  have f: "files (snd (projl aprilRun)) ''lxd-backup-web-Q20231.tar.zst.md5sum'' = Some (Data ''f,7'')"
    by (simp add: april_state put_def fsFull_def)
  have g: "loadFileData ''lxd-backup-web-Q20231.tar.zst.md5sum'' (snd (projl aprilRun)) = Inr [(''f'', ''7'')]"
    unfolding april_state by code_simp
  have h: "isl sundayRun = False"
    unfolding sundayRun_def april_state by code_simp
  have i: "files (projr sundayRun) ''lxd-backup-web-WD0-delta.tar.zst'' = Some (Tar exportX)"
    unfolding sundayRun_def april_state by code_simp
  from a b c d e f g h i show ?thesis by blast
qed

section \<open>Records of the fingerprint file\<close>

lemma readRecords_acc:
  "readRecords ls n acc = (case readRecords ls n [] of Inl e \<Rightarrow> Inl e | Inr c \<Rightarrow> Inr (acc @ c))"
proof (induction "length ls" arbitrary: ls n acc rule: less_induct)
  case less
  show ?case
  proof (cases ls)
    case Nil
    then show ?thesis by (simp add: readRecords.simps)
  next
    case (Cons line rest)
    show ?thesis
    proof (cases "length line = lengthNL line")
      case True
      with less [of rest n acc] Cons show ?thesis by (simp add: readRecords.simps)
    next
      case False
      show ?thesis
      proof (cases "parseField line rest []")
        case (Inl e)
        with Cons False show ?thesis by (simp add: readRecords.simps)
      next
        case (Inr p)
        obtain r rest' where p: "p = (r, rest')" by (cases p)
        from Inr p parse_rest_length have "length rest' < length ls" using Cons by fastforce
        note ih = less [OF this]
        show ?thesis
          using Cons False Inr p ih [of _ "acc @ [r]"] ih [of _ "[r]"]
          by (auto simp: readRecords.simps split: sum.splits)
      qed
    qed
  qed
qed


lemma readRecords_step:
  assumes "length line \<noteq> lengthNL line" and "parseField line rest [] = Inr (r, rest')"
  shows "readRecords (line # rest) n [] =
     (if n > 0 \<and> int (length r) \<noteq> n then Inl ErrFieldCount
      else case readRecords rest' (if n = 0 then int (length r) else n) [] of
             Inl e \<Rightarrow> Inl e | Inr c \<Rightarrow> Inr (r # c))"
  using assms readRecords_acc [of rest' "if n = 0 then int (length r) else n" "[r]"]
  by (auto simp: readRecords.simps split: sum.splits)

lemma checked_pos:
  "0 < n \<Longrightarrow> rawRecords ls = Inr c \<Longrightarrow>
   readRecords ls n [] = (if \<forall>l\<in>set c. int (length l) = n then Inr c else Inl ErrFieldCount)"
proof (induction "length ls" arbitrary: ls c rule: less_induct)
  case less
  show ?case
  proof (cases ls)
    case Nil
    with less.prems show ?thesis by (simp add: readRecords.simps rawRecords_def)
  next
    case (Cons line rest)
    show ?thesis
    proof (cases "length line = lengthNL line")
      case True
      with less.prems Cons have "rawRecords rest = Inr c"
        by (simp add: readRecords.simps rawRecords_def)
      with less.hyps [of rest c] less.prems(1) Cons True show ?thesis
        by (simp add: readRecords.simps)
    next
      case False
      show ?thesis
      proof (cases "parseField line rest []")
        case (Inl e)
        with less.prems Cons False show ?thesis by (simp add: readRecords.simps rawRecords_def)
      next
        case (Inr p)
        obtain r rest' where p: "p = (r, rest')" by (cases p)
        from Inr p parse_rest_length have lt: "length rest' < length ls" using Cons by fastforce
        from less.prems(2) Cons readRecords_step [OF False Inr [unfolded p], of "- 1"]
        obtain c' where c': "rawRecords rest' = Inr c'" and c: "c = r # c'"
          by (auto simp: rawRecords_def split: sum.splits)
        from less.hyps [OF lt less.prems(1) c'] readRecords_step [OF False Inr [unfolded p], of n]
          less.prems(1) c Cons
        show ?thesis by auto
      qed
    qed
  qed
qed


lemma checked_zero:
  "rawRecords ls = Inr c \<Longrightarrow>
   readRecords ls 0 [] =
     (if \<forall>l\<in>set c. length l = length (hd c) then Inr c else Inl ErrFieldCount)"
proof (induction "length ls" arbitrary: ls c rule: less_induct)
  case less
  show ?case
  proof (cases ls)
    case Nil
    with less.prems show ?thesis by (simp add: readRecords.simps rawRecords_def)
  next
    case (Cons line rest)
    show ?thesis
    proof (cases "length line = lengthNL line")
      case True
      with less.prems Cons have "rawRecords rest = Inr c"
        by (simp add: readRecords.simps rawRecords_def)
      with less.hyps [of rest c] Cons True show ?thesis
        by (simp add: readRecords.simps)
    next
      case False
      show ?thesis
      proof (cases "parseField line rest []")
        case (Inl e)
        with less.prems Cons False show ?thesis by (simp add: readRecords.simps rawRecords_def)
      next
        case (Inr p)
        obtain r rest' where p: "p = (r, rest')" by (cases p)
        from Inr p parse_result(1) have pos: "0 < int (length r)" by fastforce
        from less.prems Cons readRecords_step [OF False Inr [unfolded p], of "- 1"]
        obtain c' where c': "rawRecords rest' = Inr c'" and c: "c = r # c'"
          by (auto simp: rawRecords_def split: sum.splits)
        from checked_pos [OF pos c'] readRecords_step [OF False Inr [unfolded p], of 0] c Cons
        show ?thesis by auto
      qed
    qed
  qed
qed

lemma unchecked_fail:
  "rawRecords ls = Inl e \<Longrightarrow> \<exists>e'. readRecords ls n [] = Inl e'"
proof (induction "length ls" arbitrary: ls n rule: less_induct)
  case less
  show ?case
  proof (cases ls)
    case Nil
    with less.prems show ?thesis by (simp add: readRecords.simps rawRecords_def)
  next
    case (Cons line rest)
    show ?thesis
    proof (cases "length line = lengthNL line")
      case True
      with less.prems Cons have "rawRecords rest = Inl e"
        by (simp add: readRecords.simps rawRecords_def)
      with less.hyps [of rest n] Cons True show ?thesis
        by (simp add: readRecords.simps)
    next
      case False
      show ?thesis
      proof (cases "parseField line rest []")
        case (Inl e)
        with Cons False show ?thesis by (simp add: readRecords.simps)
      next
        case (Inr p)
        obtain r rest' where p: "p = (r, rest')" by (cases p)
        from Inr p parse_rest_length have lt: "length rest' < length ls" using Cons by fastforce
        from less.prems Cons readRecords_step [OF False Inr [unfolded p], of "- 1"]
        have "rawRecords rest' = Inl e"
          by (auto simp: rawRecords_def split: sum.splits)
        from less.hyps [OF lt this, of "if n = 0 then int (length r) else n"]
          readRecords_step [OF False Inr [unfolded p], of n] Cons
        show ?thesis by auto
      qed
    qed
  qed
qed

lemma checksumsOf_short:
  "\<exists>l\<in>set c. length l < 2 \<Longrightarrow> \<exists>i n. checksumsOf c cs = Inl (IndexOutOfRange i n)"
proof (induction c arbitrary: cs)
  case Nil
  then show ?case by simp
next
  case (Cons l c)
  show ?case
  proof (cases "length l < 2")
    case True
    then show ?thesis by (cases l; cases "tl l") auto
  next
    case False
    with Cons.prems have "\<exists>l\<in>set c. length l < 2" by simp
    from Cons.IH [OF this] False show ?thesis by (auto split: list.splits)
  qed
qed

lemma checksumsOf_table:
  "\<forall>l\<in>set c. 2 \<le> length l \<Longrightarrow>
   \<exists>t. checksumsOf c cs = Inr t \<and> map_of t = map_of (rev (map (\<lambda>l. (l ! 0, l ! 1)) c) @ cs)"
proof (induction c arbitrary: cs)
  case Nil
  then show ?case by simp
next
  case (Cons l c)
  then obtain k v others where l: "l = k # v # others"
    by (cases l; cases "tl l") auto
  from Cons.prems have "\<forall>l\<in>set c. 2 \<le> length l" by simp
  from Cons.IH [OF this, of "AList.update k v cs"] obtain t
    where t: "checksumsOf c (AList.update k v cs) = Inr t"
      and m: "map_of t = map_of (rev (map (\<lambda>l. (l ! 0, l ! 1)) c) @ AList.update k v cs)"
    by blast
  have "map_of (rev (map (\<lambda>l. (l ! 0, l ! 1)) c) @ AList.update k v cs) =
        map_of (rev (map (\<lambda>l. (l ! 0, l ! 1)) (l # c)) @ cs)"
    by (simp add: l update_conv' map_add_def fun_eq_iff split: option.splits)
  with t m l show ?case by simp
qed

text \<open>
  C8, as the code has it. The reader takes the number of fields of the first record as the
  number every record must have, and the loop reads the first two fields of each record.
  So for every fingerprint file: when the text is not well-formed CSV, loading fails with a
  decoding error; when a record has another number of fields than the first, it fails with
  the field count error; when the records agree on a number of fields below two, it fails
  with the index panic; and when they agree on a number of at least two, it returns the
  table of their first two fields (a later record winning), whatever follows these fields.
\<close>

theorem load_accepts_wider_records:
  assumes "files s fname = Some (Data txt)"
  shows "(\<forall>e. rawRecords (csv_lines txt) = Inl e \<longrightarrow>
            (\<exists>e'. loadFileData fname s = Inl (CsvDecodeFailed fname e')))
       \<and> (\<forall>c. rawRecords (csv_lines txt) = Inr c \<longrightarrow>
            ((\<exists>l\<in>set c. length l \<noteq> length (hd c)) \<longrightarrow>
               loadFileData fname s = Inl (CsvDecodeFailed fname ErrFieldCount))
          \<and> ((\<forall>l\<in>set c. length l = length (hd c)) \<and> (\<exists>l\<in>set c. length l < 2) \<longrightarrow>
               (\<exists>i n. loadFileData fname s = Inl (IndexOutOfRange i n)))
          \<and> ((\<forall>l\<in>set c. length l = length (hd c)) \<and> (\<forall>l\<in>set c. 2 \<le> length l) \<longrightarrow>
               (\<exists>t. loadFileData fname s = Inr t \<and>
                    map_of t = map_of (rev (map (\<lambda>l. (l ! 0, l ! 1)) c)))))"
proof -
  have ld: "loadFileData fname s =
      (case readRecords (csv_lines txt) 0 [] of
         Inl e \<Rightarrow> Inl (CsvDecodeFailed fname e) | Inr c \<Rightarrow> checksumsOf c [])"
    using assms by (simp add: loadFileData_def csv_ReadAll_def)
  have a: "\<exists>e'. loadFileData fname s = Inl (CsvDecodeFailed fname e')"
    if "rawRecords (csv_lines txt) = Inl e" for e
    using unchecked_fail [OF that, of 0] by (auto simp: ld)
  have b: "loadFileData fname s = Inl (CsvDecodeFailed fname ErrFieldCount)"
    if "rawRecords (csv_lines txt) = Inr c" "\<exists>l\<in>set c. length l \<noteq> length (hd c)" for c
    using checked_zero [OF that(1)] that(2) by (auto simp: ld)
  have c: "\<exists>i n. loadFileData fname s = Inl (IndexOutOfRange i n)"
    if "rawRecords (csv_lines txt) = Inr c" "\<forall>l\<in>set c. length l = length (hd c)"
       "\<exists>l\<in>set c. length l < 2" for c
    using checked_zero [OF that(1)] that(2) checksumsOf_short [OF that(3), of "[]"]
    by (auto simp: ld)
  have d: "\<exists>t. loadFileData fname s = Inr t \<and> map_of t = map_of (rev (map (\<lambda>l. (l ! 0, l ! 1)) c))"
    if "rawRecords (csv_lines txt) = Inr c" "\<forall>l\<in>set c. length l = length (hd c)"
       "\<forall>l\<in>set c. 2 \<le> length l" for c
    using checked_zero [OF that(1)] that(2) checksumsOf_table [OF that(3), of "[]"]
    by (auto simp: ld)
  from a b c d show ?thesis by blast
qed

text \<open>The file with the one record \<open>a,b,c\<close> loads as the table \<open>{a: b}\<close>.\<close>

theorem load_accepts_wider_records_witness:
  "files fsC ''three.md5sum'' = Some (Data (''a,b,c'' @ [CHR 0x0A]))
   \<and> rawRecords (csv_lines (''a,b,c'' @ [CHR 0x0A])) = Inr [[''a'', ''b'', ''c'']]
   \<and> (\<exists>t. loadFileData ''three.md5sum'' fsC = Inr t \<and>
            map_of t = map_of (rev (map (\<lambda>l. (l ! 0, l ! 1)) [[''a'', ''b'', ''c'']])))"
proof -
  have h: "files fsC ''three.md5sum'' = Some (Data (''a,b,c'' @ [CHR 0x0A]))"
    by (simp add: fsC_def)
  have r: "rawRecords (csv_lines (''a,b,c'' @ [CHR 0x0A])) = Inr [[''a'', ''b'', ''c'']]"
    by code_simp
  have same: "\<forall>l\<in>set [[''a'', ''b'', ''c'']]. length l = length (hd [[''a'', ''b'', ''c'']])"
    by simp
  have two: "\<forall>l\<in>set [[''a'', ''b'', ''c'']]. 2 \<le> length l" by simp
  from load_accepts_wider_records [OF h] r same two h show ?thesis by blast
qed

text \<open>
  C8 as stated fails: the only record of \<open>three.md5sum\<close> has three fields, and loading
  returns a table.
\<close>

theorem three_fields_load_counterexample:
  "files fsC ''three.md5sum'' = Some (Data (''a,b,c'' @ [CHR 0x0A]))
   \<and> csv_ReadAll (''a,b,c'' @ [CHR 0x0A]) = Inr [[''a'', ''b'', ''c'']]
   \<and> length [''a'', ''b'', ''c''] = 3
   \<and> loadFileData ''three.md5sum'' fsC = Inr [(''a'', ''b'')]"
  by code_simp

section \<open>Writing the fingerprint file and reading it back\<close>

lemma csv_lines_Nil [simp]: "csv_lines [] = []"
  by (simp add: csv_lines.simps)










lemma last_quoted: "sfx \<noteq> [] \<Longrightarrow> last (quoted f @ sfx) = last sfx"
  by simp

























end
